theory Spec2Isabelle
  imports Main "HOL-Library.Word"
begin

unbundle bit_operations_syntax

section \<open>Paths: the parts of Go's \<open>strings\<close> and \<open>path/filepath\<close> that the store calls\<close>

text \<open>
  Go strings are byte sequences and \<open>key[i:j]\<close> slices bytes, so identifiers, paths and
  file contents are all \<open>string\<close> (lists of 8-bit characters). The separator is the Unix
  one. The functions of this section belong to the Go standard library, not to the
  repository; they are written after the library's documentation and Unix sources.
\<close>

type_synonym path = string
type_synonym bytes = string

definition Separator :: char where
  "Separator = CHR ''/''"

text \<open>\<open>strings.Split(s, "/")\<close>: the pieces between separators, empty pieces included.\<close>

fun split_sep :: "string \<Rightarrow> string list" where
  "split_sep [] = [[]]"
| "split_sep (c # cs) =
     (if c = Separator then [] # split_sep cs
      else (case split_sep cs of
              [] \<Rightarrow> [[c]]
            | x # xs \<Rightarrow> (c # x) # xs))"

text \<open>\<open>strings.Join(elems, "/")\<close>.\<close>

fun strings_Join :: "string list \<Rightarrow> string" where
  "strings_Join [] = []"
| "strings_Join [x] = x"
| "strings_Join (x # y # ys) = x @ Separator # strings_Join (y # ys)"

text \<open>
  One step of \<open>filepath.Clean\<close>'s scan, on whole path elements: \<open>out\<close> is the list of
  elements written so far. An empty element and \<open>.\<close> are skipped; \<open>..\<close> removes the last
  element written when that is a real one, is dropped at the root of a rooted path, and
  is kept otherwise; any other element is appended.
\<close>

definition clean_step :: "bool \<Rightarrow> string list \<Rightarrow> string \<Rightarrow> string list" where
  "clean_step rooted out c =
     (if c = [] \<or> c = ''.'' then out
      else if c = ''..'' then
        (if out \<noteq> [] \<and> last out \<noteq> ''..'' then butlast out
         else if rooted then out
         else out @ [''..''])
      else out @ [c])"

definition is_rooted :: "path \<Rightarrow> bool" where
  "is_rooted p = (case p of [] \<Rightarrow> False | c # _ \<Rightarrow> c = Separator)"

definition clean_elems :: "path \<Rightarrow> string list" where
  "clean_elems p = foldl (clean_step (is_rooted p)) [] (split_sep p)"

definition render :: "bool \<Rightarrow> string list \<Rightarrow> path" where
  "render rooted es =
     (if rooted then Separator # strings_Join es
      else if es = [] then ''.''
      else strings_Join es)"

text \<open>\<open>filepath.Clean\<close>: the shortest lexically equivalent path; the empty path gives \<open>.\<close>.\<close>

definition filepath_Clean :: "path \<Rightarrow> path" where
  "filepath_Clean p = render (is_rooted p) (clean_elems p)"

text \<open>
  \<open>filepath.Join\<close>: the elements from the first non-empty one on are joined with the
  separator and the result is cleaned; with no non-empty element the result is empty.
\<close>

fun filepath_Join :: "string list \<Rightarrow> path" where
  "filepath_Join [] = []"
| "filepath_Join (e # es) =
     (if e = [] then filepath_Join es else filepath_Clean (strings_Join (e # es)))"

text \<open>
  \<open>filepath.Dir\<close>: everything up to and including the last separator, cleaned.
\<close>

definition dir_prefix :: "path \<Rightarrow> path" where
  "dir_prefix p = rev (dropWhile (\<lambda>c. c \<noteq> Separator) (rev p))"

definition filepath_Dir :: "path \<Rightarrow> path" where
  "filepath_Dir p = filepath_Clean (dir_prefix p)"

section \<open>Key sharding\<close>

text \<open>
  \<open>transformKey\<close> of \<open>content_store.go\<close>: a key shorter than five bytes is returned as
  it is; otherwise \<open>key[0:2]\<close>, \<open>key[2:4]\<close> and \<open>key[4:len(key)]\<close> are joined.
\<close>

definition transformKey :: "string \<Rightarrow> string" where
  "transformKey key =
     (if length key < 5 then key
      else filepath_Join [take 2 key, take 2 (drop 2 key), drop 4 key])"

section \<open>Errors\<close>

text \<open>
  The two sentinel errors of \<open>content_store.go\<close>, \<open>io.EOF\<close>, and the errors that the
  operating system and the gzip reader hand back. A Go \<open>error\<close> that may be \<open>nil\<close> is an
  \<open>error option\<close>.
\<close>

datatype errno = ENOENT | EEXIST | EACCES | ENOTDIR | EISDIR | ENOTEMPTY | ENOSPC | EIO

datatype error =
    errHashMismatch
  | errSizeMismatch
  | EOF
  | ErrUnexpectedEOF
  | gzip_ErrHeader
  | gzip_ErrChecksum
  | PathError errno

text \<open>\<open>os.IsNotExist\<close>: true for a not-found error only, false for \<open>nil\<close> and the rest.\<close>

definition os_IsNotExist :: "error option \<Rightarrow> bool" where
  "os_IsNotExist err = (err = Some (PathError ENOENT))"

section \<open>The file system\<close>

text \<open>
  All state of the store is the file system. It is a map from paths to nodes, compared
  as strings (the store hands every call but \<open>MkdirAll\<close> a cleaned path; symbolic links
  are not modelled), the process's umask, and a table of failures that come from
  outside the model (permissions, a full disk, a failing device): \<open>fault fs op p\<close> is
  the error that call \<open>op\<close> on path \<open>p\<close> meets, if any.
\<close>

type_synonym FileMode = "32 word"

datatype node = File FileMode bytes | Dir FileMode

datatype sysop =
  OpStat | OpMkdir | OpCreate | OpOpen | OpWrite | OpFlush | OpCloseFile | OpRename | OpRemove

record fsys =
  nodes :: "path \<rightharpoonup> node"
  umask :: FileMode
  fault :: "sysop \<Rightarrow> path \<Rightarrow> errno option"

text \<open>The modes the store passes, \<open>0750\<close> and \<open>0640\<close> in octal.\<close>

definition mode_0750 :: FileMode where
  "mode_0750 = 488"

definition mode_0640 :: FileMode where
  "mode_0640 = 416"

text \<open>
  The working directory, the root and the chains \<open>..\<close>, \<open>../..\<close> always exist.
\<close>

definition implicit_dir :: "path \<Rightarrow> bool" where
  "implicit_dir p = (p = ''.'' \<or> p = ''/'' \<or> list_all (\<lambda>e. e = ''..'') (split_sep p))"

definition lookup :: "fsys \<Rightarrow> path \<Rightarrow> node option" where
  "lookup fs p = (if implicit_dir p then Some (Dir 493) else nodes fs p)"

text \<open>\<open>os.Stat\<close>, of which the store keeps the error only.\<close>

definition os_Stat :: "fsys \<Rightarrow> path \<Rightarrow> error option" where
  "os_Stat fs p =
     (case fault fs OpStat p of
        Some e \<Rightarrow> Some (PathError e)
      | None \<Rightarrow> (case lookup fs p of None \<Rightarrow> Some (PathError ENOENT) | Some n \<Rightarrow> None))"

text \<open>
  \<open>os.MkdirAll\<close>. The directories to visit are the path's own prefixes, outermost
  first. One that is a directory is passed, one that is a file stops the call with
  \<open>ENOTDIR\<close>, a missing one is made with the mode masked by the umask, unless the
  \<open>mkdir\<close> fails. As in the library, a path that is a directory already returns at
  once, and the empty path is an error.
\<close>

definition ancestors :: "path \<Rightarrow> path list" where
  "ancestors p =
     map (\<lambda>n. render (is_rooted p) (take n (clean_elems p)))
       [1 ..< Suc (length (clean_elems p))]"

fun mkdir_chain :: "fsys \<Rightarrow> FileMode \<Rightarrow> path list \<Rightarrow> error option \<times> fsys" where
  "mkdir_chain fs perm [] = (None, fs)"
| "mkdir_chain fs perm (d # ds) =
     (case lookup fs d of
        Some (Dir m) \<Rightarrow> mkdir_chain fs perm ds
      | Some (File m c) \<Rightarrow> (Some (PathError ENOTDIR), fs)
      | None \<Rightarrow>
          (case fault fs OpMkdir d of
             Some e \<Rightarrow> (Some (PathError e), fs)
           | None \<Rightarrow>
               mkdir_chain (fs\<lparr>nodes := (nodes fs)(d \<mapsto> Dir (perm AND NOT (umask fs)))\<rparr>)
                 perm ds))"

definition os_MkdirAll :: "fsys \<Rightarrow> path \<Rightarrow> FileMode \<Rightarrow> error option \<times> fsys" where
  "os_MkdirAll fs p perm =
     (if p = [] then (Some (PathError ENOENT), fs)
      else case lookup fs (filepath_Clean p) of
             Some (Dir m) \<Rightarrow> (None, fs)
           | Some (File m c) \<Rightarrow> (Some (PathError ENOTDIR), fs)
           | None \<Rightarrow> mkdir_chain fs perm (ancestors p))"

text \<open>
  \<open>os.OpenFile(p, O_CREATE|O_WRONLY|O_EXCL, perm)\<close>: fails when anything is at \<open>p\<close>
  already, or when the parent is not a directory; otherwise an empty file appears.
\<close>

definition os_OpenFile_excl :: "fsys \<Rightarrow> path \<Rightarrow> FileMode \<Rightarrow> error + fsys" where
  "os_OpenFile_excl fs p perm =
     (case fault fs OpCreate p of
        Some e \<Rightarrow> Inl (PathError e)
      | None \<Rightarrow>
          (case lookup fs p of
             Some n \<Rightarrow> Inl (PathError EEXIST)
           | None \<Rightarrow>
               (case lookup fs (filepath_Dir p) of
                  Some (Dir m) \<Rightarrow>
                    Inr (fs\<lparr>nodes := (nodes fs)(p \<mapsto> File (perm AND NOT (umask fs)) [])\<rparr>)
                | Some (File m c) \<Rightarrow> Inl (PathError ENOTDIR)
                | None \<Rightarrow> Inl (PathError ENOENT))))"

text \<open>What an open file holds once the writer has flushed \<open>c\<close> into it.\<close>

definition write_file :: "fsys \<Rightarrow> path \<Rightarrow> bytes \<Rightarrow> fsys" where
  "write_file fs p c =
     (case nodes fs p of
        Some (File m old) \<Rightarrow> fs\<lparr>nodes := (nodes fs)(p \<mapsto> File m c)\<rparr>
      | Some (Dir m) \<Rightarrow> fs
      | None \<Rightarrow> fs)"

text \<open>
  \<open>os.Rename\<close> of a file: the node moves, replacing a file at the new path; a
  directory at the new path refuses it.
\<close>

definition os_Rename :: "fsys \<Rightarrow> path \<Rightarrow> path \<Rightarrow> error + fsys" where
  "os_Rename fs old new =
     (case fault fs OpRename new of
        Some e \<Rightarrow> Inl (PathError e)
      | None \<Rightarrow>
          (case nodes fs old of
             None \<Rightarrow> Inl (PathError ENOENT)
           | Some n \<Rightarrow>
               (case lookup fs new of
                  Some (Dir m) \<Rightarrow> Inl (PathError EISDIR)
                | Some (File m c) \<Rightarrow> Inr (fs\<lparr>nodes := ((nodes fs)(old := None))(new \<mapsto> n)\<rparr>)
                | None \<Rightarrow> Inr (fs\<lparr>nodes := ((nodes fs)(old := None))(new \<mapsto> n)\<rparr>))))"

text \<open>
  \<open>os.Remove\<close>: a file is unlinked. The store never removes a directory; one is
  left in place with an error.
\<close>

definition os_Remove :: "fsys \<Rightarrow> path \<Rightarrow> error option \<times> fsys" where
  "os_Remove fs p =
     (case fault fs OpRemove p of
        Some e \<Rightarrow> (Some (PathError e), fs)
      | None \<Rightarrow>
          (case nodes fs p of
             None \<Rightarrow> (Some (PathError ENOENT), fs)
           | Some (Dir m) \<Rightarrow> (Some (PathError ENOTEMPTY), fs)
           | Some (File m c) \<Rightarrow> (None, fs\<lparr>nodes := (nodes fs)(p := None)\<rparr>)))"

section \<open>Readers, the codec and the hash\<close>

text \<open>
  An \<open>io.Reader\<close> is the bytes it will still deliver and the error that ends it,
  \<open>io.EOF\<close> for a source that ends well.
\<close>

record reader =
  rdata :: bytes
  rerr :: error

text \<open>
  A \<open>*gzip.Reader\<close>: the decompressed bytes still to come, the error that ends them,
  and what its \<open>Close\<close> will return.
\<close>

record gzip_Reader =
  zpending :: bytes
  zfinal :: error
  zclose :: "error option"

text \<open>
  An \<open>*os.File\<close> opened for reading: its path, what reading it gives (the bytes, or
  the error of reading a directory), and what its \<open>Close\<close> will return.
\<close>

record os_File =
  fname :: path
  fcontent :: "error + bytes"
  fclose :: "error option"

text \<open>
  SHA-256 and gzip are library code; the store is verified for any such functions.
  \<open>gzip_compress b\<close> is what a \<open>gzip.Writer\<close> at \<open>BestCompression\<close> has written after
  \<open>b\<close> and \<open>Close\<close>; \<open>gzip_decode z\<close> is \<open>gzip.NewReader\<close> on a file holding \<open>z\<close>: a
  header error, or a reader.
\<close>

record codec =
  sha256_Sum :: "bytes \<Rightarrow> bytes"
  gzip_compress :: "bytes \<Rightarrow> bytes"
  gzip_decode :: "bytes \<Rightarrow> error + gzip_Reader"

text \<open>\<open>hex.EncodeToString\<close>: two lower-case digits for each byte.\<close>

definition hexdigit :: "nat \<Rightarrow> char" where
  "hexdigit n = ''0123456789abcdef'' ! (n mod 16)"

definition hex_EncodeToString :: "bytes \<Rightarrow> string" where
  "hex_EncodeToString bs =
     concat (map (\<lambda>c. [hexdigit (of_char c div 16), hexdigit (of_char c mod 16)]) bs)"

text \<open>\<open>os.Open\<close>. Opening a directory succeeds; reading it does not.\<close>

definition os_Open :: "fsys \<Rightarrow> path \<Rightarrow> error + os_File" where
  "os_Open fs p =
     (case fault fs OpOpen p of
        Some e \<Rightarrow> Inl (PathError e)
      | None \<Rightarrow>
          (case lookup fs p of
             None \<Rightarrow> Inl (PathError ENOENT)
           | Some (File m c) \<Rightarrow>
               Inr \<lparr>fname = p, fcontent = Inr c,
                    fclose = map_option PathError (fault fs OpCloseFile p)\<rparr>
           | Some (Dir m) \<Rightarrow>
               Inr \<lparr>fname = p, fcontent = Inl (PathError EISDIR),
                    fclose = map_option PathError (fault fs OpCloseFile p)\<rparr>))"

definition gzip_NewReader :: "codec \<Rightarrow> os_File \<Rightarrow> error + gzip_Reader" where
  "gzip_NewReader cd file =
     (case fcontent file of Inl e \<Rightarrow> Inl e | Inr c \<Rightarrow> gzip_decode cd c)"

text \<open>
  \<open>io.CopyN(ioutil.Discard, g, n)\<close> for \<open>n > 0\<close>: with \<open>n\<close> bytes to come they are
  skipped and the error is \<open>nil\<close>; with fewer, all are consumed and the error is the
  reader's own, \<open>io.EOF\<close> when it simply ended.
\<close>

definition io_CopyN_Discard :: "gzip_Reader \<Rightarrow> int \<Rightarrow> gzip_Reader \<times> error option" where
  "io_CopyN_Discard z n =
     (if n \<le> int (length (zpending z))
      then (z\<lparr>zpending := drop (nat n) (zpending z)\<rparr>, None)
      else (z\<lparr>zpending := []\<rparr>, Some (zfinal z)))"

text \<open>
  \<open>io.Copy(hw, r)\<close> into the hash and the compressor over the temporary file: the
  number of bytes copied, or the error of the write or of the source.
\<close>

definition io_Copy :: "fsys \<Rightarrow> path \<Rightarrow> reader \<Rightarrow> error + int" where
  "io_Copy fs tmp r =
     (case (if rdata r = [] then None else fault fs OpWrite tmp) of
        Some e \<Rightarrow> Inl (PathError e)
      | None \<Rightarrow> if rerr r = EOF then Inr (int (length (rdata r))) else Inl (rerr r))"

text \<open>\<open>g.Close()\<close> of the \<open>gzip.Writer\<close>: the compressed bytes reach the file, or not.\<close>

definition gzip_Writer_Close :: "codec \<Rightarrow> fsys \<Rightarrow> path \<Rightarrow> bytes \<Rightarrow> error + fsys" where
  "gzip_Writer_Close cd fs tmp b =
     (case fault fs OpFlush tmp of
        Some e \<Rightarrow> Inl (PathError e)
      | None \<Rightarrow> Inr (write_file fs tmp (gzip_compress cd b)))"

section \<open>The content store\<close>

text \<open>
  Modelled from the spec: \<open>MetaObject\<close> is declared in another file of the
  repository; the store reads its identifier \<open>Oid\<close> and its \<open>Size\<close>, an \<open>int64\<close>.
  Sizes and offsets are only compared, never computed with, so they are \<open>int\<close>.
\<close>

record MetaObject =
  Oid :: string
  Size :: int

record ContentStore =
  basePath :: string

definition NewContentStore :: "fsys \<Rightarrow> string \<Rightarrow> (error + ContentStore) \<times> fsys" where
  "NewContentStore fs base =
     (case os_MkdirAll fs base mode_0750 of
        (Some e, fs') \<Rightarrow> (Inl e, fs')
      | (None, fs') \<Rightarrow> (Inr \<lparr>basePath = base\<rparr>, fs'))"

text \<open>The path of an object, computed alike by \<open>Get\<close>, \<open>Put\<close> and \<open>Exists\<close>.\<close>

definition object_path :: "ContentStore \<Rightarrow> MetaObject \<Rightarrow> path" where
  "object_path s meta = filepath_Join [basePath s, transformKey (Oid meta)] @ ''.gz''"

text \<open>
  \<open>bothCloser\<close>: the file and the gzip reader over it (fields \<open>f\<close> and \<open>g\<close> of the
  source). Closing a resource is recorded in a log, so that the order shows.
\<close>

record bothCloser =
  b_f :: os_File
  b_g :: gzip_Reader

datatype resource = Decompressor | FileHandle

definition gzip_Reader_Read :: "gzip_Reader \<Rightarrow> nat \<Rightarrow> (bytes \<times> error option) \<times> gzip_Reader" where
  "gzip_Reader_Read z n =
     (if n = 0 then (([], None), z)
      else if zpending z = [] then (([], Some (zfinal z)), z)
      else ((take n (zpending z), None), z\<lparr>zpending := drop n (zpending z)\<rparr>))"

definition Read :: "bothCloser \<Rightarrow> nat \<Rightarrow> (bytes \<times> error option) \<times> bothCloser" where
  "Read b n = (case gzip_Reader_Read (b_g b) n of (res, g') \<Rightarrow> (res, b\<lparr>b_g := g'\<rparr>))"

definition gzip_Reader_Close :: "gzip_Reader \<Rightarrow> resource list \<Rightarrow> error option \<times> resource list" where
  "gzip_Reader_Close z log = (zclose z, log @ [Decompressor])"

definition os_File_Close :: "os_File \<Rightarrow> resource list \<Rightarrow> error option \<times> resource list" where
  "os_File_Close file log = (fclose file, log @ [FileHandle])"

definition Close :: "bothCloser \<Rightarrow> resource list \<Rightarrow> error option \<times> resource list" where
  "Close b log =
     (case gzip_Reader_Close (b_g b) log of
        (err, log1) \<Rightarrow>
          (case os_File_Close (b_f b) log1 of
             (Some e, log2) \<Rightarrow> (Some e, log2)
           | (None, log2) \<Rightarrow> (err, log2)))"

text \<open>
  \<open>Get\<close>. The diagnostics it prints are left out. On the error path of the skip it
  returns the handle together with the error, as the source does.
\<close>

definition Get ::
  "codec \<Rightarrow> ContentStore \<Rightarrow> fsys \<Rightarrow> MetaObject \<Rightarrow> int \<Rightarrow> bothCloser option \<times> error option" where
  "Get cd s fs meta fromByte =
     (let path = object_path s meta in
      case os_Open fs path of
        Inl e \<Rightarrow> (None, Some e)
      | Inr file \<Rightarrow>
          (case gzip_NewReader cd file of
             Inl e \<Rightarrow> (None, Some e)
           | Inr g \<Rightarrow>
               if fromByte > 0
               then (case io_CopyN_Discard g fromByte of
                       (g', err) \<Rightarrow> (Some \<lparr>b_f = file, b_g = g'\<rparr>, err))
               else (Some \<lparr>b_f = file, b_g = g\<rparr>, None)))"

text \<open>
  \<open>Put\<close>. \<open>Put_stream\<close> is the part that runs under the deferred
  \<open>os.Remove(tmpPath)\<close>; \<open>Put\<close> runs the removal after it on every way out and
  drops its error.
\<close>

definition Put_stream ::
  "codec \<Rightarrow> fsys \<Rightarrow> MetaObject \<Rightarrow> reader \<Rightarrow> path \<Rightarrow> path \<Rightarrow> error option \<times> fsys" where
  "Put_stream cd fs meta r path tmpPath =
     (case io_Copy fs tmpPath r of
        Inl e \<Rightarrow> (Some e, fs)
      | Inr written \<Rightarrow>
          (case gzip_Writer_Close cd fs tmpPath (rdata r) of
             Inl e \<Rightarrow> (Some e, fs)
           | Inr fs' \<Rightarrow>
               if written \<noteq> Size meta then (Some errSizeMismatch, fs')
               else if hex_EncodeToString (sha256_Sum cd (rdata r)) \<noteq> Oid meta
               then (Some errHashMismatch, fs')
               else (case os_Rename fs' tmpPath path of
                       Inl e \<Rightarrow> (Some e, fs')
                     | Inr fs'' \<Rightarrow> (None, fs''))))"

definition Put ::
  "codec \<Rightarrow> ContentStore \<Rightarrow> fsys \<Rightarrow> MetaObject \<Rightarrow> reader \<Rightarrow> error option \<times> fsys" where
  "Put cd s fs meta r =
     (let path = object_path s meta;
          tmpPath = path @ ''.tmp'';
          dir = filepath_Dir path
      in case os_MkdirAll fs dir mode_0750 of
           (Some e, fs1) \<Rightarrow> (Some e, fs1)
         | (None, fs1) \<Rightarrow>
             (case os_OpenFile_excl fs1 tmpPath mode_0640 of
                Inl e \<Rightarrow> (Some e, fs1)
              | Inr fs2 \<Rightarrow>
                  (case Put_stream cd fs2 meta r path tmpPath of
                     (res, fs3) \<Rightarrow> (res, snd (os_Remove fs3 tmpPath)))))"

text \<open>\<open>Exists\<close>: false when \<open>os.Stat\<close> reports not-found, true in every other case.\<close>

definition Exists :: "ContentStore \<Rightarrow> fsys \<Rightarrow> MetaObject \<Rightarrow> bool" where
  "Exists s fs meta =
     (let path = object_path s meta in
      if os_IsNotExist (os_Stat fs path) then False else True)"

text \<open>
  \<open>io.ReadAll\<close> over the handle, the way a caller drains it: \<open>Read\<close> is called until it
  returns an error, and \<open>io.EOF\<close> counts as a good end.
\<close>

function io_ReadAll :: "bothCloser \<Rightarrow> bytes \<times> error option" where
  "io_ReadAll b =
     (case Read b 512 of
        ((d, Some e), b') \<Rightarrow> (d, if e = EOF then None else Some e)
      | ((d, None), b') \<Rightarrow> (case io_ReadAll b' of (ds, err) \<Rightarrow> (d @ ds, err)))"
  by pat_completeness auto
termination
  by (relation "measure (\<lambda>b. length (zpending (b_g b)))")
    (auto simp: Read_def gzip_Reader_Read_def split: if_splits)

declare io_ReadAll.simps [simp del]

section \<open>Concrete states for the examples\<close>

text \<open>
  A stand-in codec that can be evaluated: the digest is the first four bytes (padded),
  compression puts a two-byte magic in front, and decoding checks and strips it.
\<close>

definition example_codec :: codec where
  "example_codec =
     \<lparr>sha256_Sum = (\<lambda>b. take 4 (b @ ''....'')),
      gzip_compress = (\<lambda>b. ''GZ'' @ b),
      gzip_decode = (\<lambda>z. if take 2 z = ''GZ''
                          then Inr \<lparr>zpending = drop 2 z, zfinal = EOF, zclose = None\<rparr>
                          else Inl gzip_ErrHeader)\<rparr>"

definition no_fault :: "sysop \<Rightarrow> path \<Rightarrow> errno option" where
  "no_fault op p = None"

definition stat_denied :: "sysop \<Rightarrow> path \<Rightarrow> errno option" where
  "stat_denied op p = (if op = OpStat then Some EACCES else None)"

text \<open>An empty working directory under the usual umask \<open>022\<close>.\<close>

definition fs_empty :: fsys where
  "fs_empty = \<lparr>nodes = Map.empty, umask = 18, fault = no_fault\<rparr>"

definition fs_stat_denied :: fsys where
  "fs_stat_denied = \<lparr>nodes = Map.empty, umask = 18, fault = stat_denied\<rparr>"

text \<open>
  A store holding \<open>hello world\<close> under the stand-in codec, and one where a write of
  the same object is under way.
\<close>

definition fs_stored :: fsys where
  "fs_stored =
     \<lparr>nodes = map_of
        [(''store'', Dir 488), (''store/68'', Dir 488), (''store/68/65'', Dir 488),
         (''store/68/65/6c6c.gz'', File 416 ''GZhello world'')],
      umask = 18, fault = no_fault\<rparr>"

definition fs_in_progress :: fsys where
  "fs_in_progress =
     \<lparr>nodes = map_of
        [(''store'', Dir 488), (''store/68'', Dir 488), (''store/68/65'', Dir 488),
         (''store/68/65/6c6c.gz.tmp'', File 416 [])],
      umask = 18, fault = no_fault\<rparr>"

definition example_store :: ContentStore where
  "example_store = \<lparr>basePath = ''store''\<rparr>"

definition example_meta :: MetaObject where
  "example_meta = \<lparr>Oid = ''68656c6c'', Size = 11\<rparr>"

definition example_source :: reader where
  "example_source = \<lparr>rdata = ''hello world'', rerr = EOF\<rparr>"

text \<open>A handle both of whose resources fail to close.\<close>

definition example_handle :: bothCloser where
  "example_handle =
     \<lparr>b_f = \<lparr>fname = ''store/68/65/6c6c.gz'', fcontent = Inr ''GZhello world'',
             fclose = Some (PathError EIO)\<rparr>,
      b_g = \<lparr>zpending = ''hello world'', zfinal = EOF, zclose = Some gzip_ErrChecksum\<rparr>\<rparr>"

text \<open>
  A mode that grants nothing beyond the owner's bits: the group and other bits,
  \<open>077\<close> in octal, are all clear.
\<close>

definition owner_only :: "FileMode \<Rightarrow> bool" where
  "owner_only m = (m AND 63 = 0)"

section \<open>Sharding is what the layout says\<close>

lemma split_sep_nonempty: "split_sep s \<noteq> []"
  by (induction s) (auto split: list.splits)

lemma split_sep_plain: "Separator \<notin> set a \<Longrightarrow> split_sep a = [a]"
  by (induction a) auto

lemma split_sep_append:
  "Separator \<notin> set a \<Longrightarrow> split_sep (a @ Separator # rest) = a # split_sep rest"
  by (induction a) (auto split: list.splits)

lemma clean_three_plain:
  assumes "Separator \<notin> set a" "Separator \<notin> set b" "Separator \<notin> set c"
    and "CHR ''.'' \<notin> set a" "CHR ''.'' \<notin> set b" "CHR ''.'' \<notin> set c"
    and "a \<noteq> []" "b \<noteq> []" "c \<noteq> []"
  shows "filepath_Clean (a @ Separator # b @ Separator # c) = a @ Separator # b @ Separator # c"
proof -
  have sp: "split_sep (a @ Separator # b @ Separator # c) = [a, b, c]"
    using assms by (simp add: split_sep_append split_sep_plain)
  have nr: "\<not> is_rooted (a @ Separator # b @ Separator # c)"
    using assms by (cases a) (auto simp: is_rooted_def)
  have na: "a \<noteq> ''.''" "a \<noteq> ''..''" "b \<noteq> ''.''" "b \<noteq> ''..''" "c \<noteq> ''.''" "c \<noteq> ''..''"
    using assms by auto
  show ?thesis
    using assms(7-9) na by (simp add: filepath_Clean_def clean_elems_def sp nr clean_step_def render_def)
qed

text \<open>
  Claim C2. \<open>transformKey\<close> is a function of the key alone. A key shorter than five
  bytes comes back unchanged; a longer one gives the join of its first two bytes, its
  next two bytes and the rest, which for a key without separators and dots (every
  hexadecimal identifier is one) is these three pieces with a separator between them.
  In particular \<open>abc\<close> gives \<open>abc\<close> and \<open>abcdef1234\<close> gives \<open>ab/cd/ef1234\<close>.
\<close>

theorem transformKey_shards:
  "(length key < 5 \<longrightarrow> transformKey key = key) \<and>
   (5 \<le> length key \<longrightarrow>
      transformKey key = filepath_Join [take 2 key, take 2 (drop 2 key), drop 4 key]) \<and>
   (5 \<le> length key \<and> CHR ''/'' \<notin> set key \<and> CHR ''.'' \<notin> set key \<longrightarrow>
      transformKey key = take 2 key @ ''/'' @ take 2 (drop 2 key) @ ''/'' @ drop 4 key) \<and>
   transformKey ''abc'' = ''abc'' \<and>
   transformKey ''abcdef1234'' = ''ab/cd/ef1234''"
proof (intro conjI impI)
  assume "length key < 5" then show "transformKey key = key"
    by (simp add: transformKey_def)
next
  assume "5 \<le> length key"
  then show "transformKey key = filepath_Join [take 2 key, take 2 (drop 2 key), drop 4 key]"
    by (simp add: transformKey_def)
next
  assume h: "5 \<le> length key \<and> CHR ''/'' \<notin> set key \<and> CHR ''.'' \<notin> set key"
  let ?a = "take 2 key" and ?b = "take 2 (drop 2 key)" and ?c = "drop 4 key"
  have sub: "set ?a \<subseteq> set key" "set ?b \<subseteq> set key" "set ?c \<subseteq> set key"
    by (auto dest: in_set_takeD in_set_dropD)
  have ne: "?a \<noteq> []" "?b \<noteq> []" "?c \<noteq> []" using h by auto
  have "filepath_Clean (?a @ Separator # ?b @ Separator # ?c) = ?a @ Separator # ?b @ Separator # ?c"
    using h sub ne by (intro clean_three_plain) (auto simp: Separator_def)
  then show "transformKey key = ?a @ ''/'' @ ?b @ ''/'' @ ?c"
    using h ne by (simp add: transformKey_def Separator_def)
next
  show "transformKey ''abc'' = ''abc''" by (simp add: transformKey_def)
next
  show "transformKey ''abcdef1234'' = ''ab/cd/ef1234''" by code_simp
qed

theorem transformKey_shards_witness:
  "length ''abc'' < 5 \<and> transformKey ''abc'' = ''abc'' \<and>
   5 \<le> length ''0a1b2c3d4e'' \<and> CHR ''/'' \<notin> set ''0a1b2c3d4e'' \<and> CHR ''.'' \<notin> set ''0a1b2c3d4e'' \<and>
   transformKey ''0a1b2c3d4e'' = ''0a/1b/2c3d4e''"
proof -
  have short: "length ''abc'' < 5" by simp
  have long: "5 \<le> length ''0a1b2c3d4e'' \<and> CHR ''/'' \<notin> set ''0a1b2c3d4e'' \<and>
      CHR ''.'' \<notin> set ''0a1b2c3d4e''" by simp
  have "transformKey ''0a1b2c3d4e'' =
      take 2 ''0a1b2c3d4e'' @ ''/'' @ take 2 (drop 2 ''0a1b2c3d4e'') @ ''/'' @ drop 4 ''0a1b2c3d4e''"
    using transformKey_shards [of "''0a1b2c3d4e''"] long by blast
  then have "transformKey ''0a1b2c3d4e'' = ''0a/1b/2c3d4e''" by simp
  moreover have "transformKey ''abc'' = ''abc''"
    using transformKey_shards [of "''abc''"] short by blast
  ultimately show ?thesis using short long by blast
qed

section \<open>Closing the handle\<close>

text \<open>
  Claim C7, as amended. Closing the handle releases both resources, the decompressor
  first and the file second, whatever either release returns. The error handed to the
  caller is the file's when the file fails to close, and the decompressor's result
  otherwise: with both failing it is the second failure, the file's.
\<close>

theorem Close_releases_both:
  "snd (Close b log) = log @ [Decompressor, FileHandle] \<and>
   fst (Close b log) = (case fclose (b_f b) of Some e \<Rightarrow> Some e | None \<Rightarrow> zclose (b_g b))"
  by (simp add: Close_def gzip_Reader_Close_def os_File_Close_def split: option.splits)

text \<open>
  With both releases failing the caller sees the file's error, not the decompressor's.
\<close>

theorem Close_both_fail_counterexample:
  "zclose (b_g example_handle) = Some gzip_ErrChecksum \<and>
   fclose (b_f example_handle) = Some (PathError EIO) \<and>
   fst (Close example_handle []) = Some (PathError EIO) \<and>
   fst (Close example_handle []) \<noteq> zclose (b_g example_handle)"
  by (simp add: Close_def gzip_Reader_Close_def os_File_Close_def example_handle_def)

section \<open>Reading\<close>

text \<open>Draining a handle gives exactly the bytes it still holds.\<close>

lemma io_ReadAll_drains:
  "io_ReadAll b =
     (zpending (b_g b), if zfinal (b_g b) = EOF then None else Some (zfinal (b_g b)))"
proof (induction b rule: io_ReadAll.induct)
  case (1 b)
  show ?case
  proof (cases "zpending (b_g b) = []")
    case True
    then show ?thesis
      by (subst io_ReadAll.simps) (simp add: Read_def gzip_Reader_Read_def)
  next
    case False
    let ?b' = "b\<lparr>b_g := (b_g b)\<lparr>zpending := drop 512 (zpending (b_g b))\<rparr>\<rparr>"
    have rd: "Read b 512 = ((take 512 (zpending (b_g b)), None), ?b')"
      using False by (simp add: Read_def gzip_Reader_Read_def)
    have ih: "io_ReadAll ?b' =
        (zpending (b_g ?b'), if zfinal (b_g ?b') = EOF then None else Some (zfinal (b_g ?b')))"
      using "1.IH" [OF rd [symmetric]] by simp
    show ?thesis
      by (subst io_ReadAll.simps) (simp add: rd ih)
  qed
qed

lemma Get_stored:
  assumes "fault fs OpOpen (object_path s meta) = None"
    and "lookup fs (object_path s meta) = Some (File m z)"
    and "gzip_decode cd z = Inr g"
  shows "Get cd s fs meta k =
     (if k > 0
      then (Some \<lparr>b_f = \<lparr>fname = object_path s meta, fcontent = Inr z,
                fclose = map_option PathError (fault fs OpCloseFile (object_path s meta))\<rparr>,
              b_g = fst (io_CopyN_Discard g k)\<rparr>, snd (io_CopyN_Discard g k))
      else (Some \<lparr>b_f = \<lparr>fname = object_path s meta, fcontent = Inr z,
                fclose = map_option PathError (fault fs OpCloseFile (object_path s meta))\<rparr>,
              b_g = g\<rparr>, None))"
  using assms
  by (simp add: Get_def Let_def os_Open_def gzip_NewReader_def case_prod_beta)

text \<open>
  Claim C3. Let the object's file hold the compressed form of \<open>b\<close>. For an offset \<open>k\<close>
  from \<open>0\<close> to the length of \<open>b\<close>, \<open>Get\<close> returns without error a handle that reads
  exactly the suffix of \<open>b\<close> from \<open>k\<close> on. For a larger \<open>k\<close> the error returned to the
  caller is \<open>io.EOF\<close>: the short object is reported, not passed over.
\<close>

theorem Get_from_offset:
  assumes "fault fs OpOpen (object_path s meta) = None"
    and "lookup fs (object_path s meta) = Some (File m z)"
    and "gzip_decode cd z = Inr \<lparr>zpending = b, zfinal = EOF, zclose = c\<rparr>"
    and "0 \<le> k"
  shows "(k \<le> int (length b) \<longrightarrow>
            (\<exists>h. Get cd s fs meta k = (Some h, None) \<and> io_ReadAll h = (drop (nat k) b, None))) \<and>
         (int (length b) < k \<longrightarrow> snd (Get cd s fs meta k) = Some EOF)"
  using assms(4)
  by (auto simp: Get_stored [OF assms(1-3)] io_CopyN_Discard_def io_ReadAll_drains)

theorem Get_from_offset_witness:
  "fault fs_stored OpOpen (object_path example_store example_meta) = None \<and>
   lookup fs_stored (object_path example_store example_meta) = Some (File 416 ''GZhello world'') \<and>
   gzip_decode example_codec ''GZhello world'' =
     Inr \<lparr>zpending = ''hello world'', zfinal = EOF, zclose = None\<rparr> \<and>
   (\<exists>h. Get example_codec example_store fs_stored example_meta 6 = (Some h, None) \<and>
        io_ReadAll h = (''world'', None)) \<and>
   snd (Get example_codec example_store fs_stored example_meta 12) = Some EOF"
proof -
  have p: "object_path example_store example_meta = ''store/68/65/6c6c.gz''"
    by code_simp
  have a1: "fault fs_stored OpOpen (object_path example_store example_meta) = None"
    by (simp add: fs_stored_def no_fault_def)
  have a2: "lookup fs_stored (object_path example_store example_meta) =
      Some (File 416 ''GZhello world'')"
    unfolding p by (simp add: lookup_def implicit_dir_def fs_stored_def Separator_def)
  have a3: "gzip_decode example_codec ''GZhello world'' =
      Inr \<lparr>zpending = ''hello world'', zfinal = EOF, zclose = None\<rparr>"
    by (simp add: example_codec_def)
  have "\<exists>h. Get example_codec example_store fs_stored example_meta 6 = (Some h, None) \<and>
        io_ReadAll h = (drop (nat 6) ''hello world'', None)"
    using Get_from_offset [OF a1 a2 a3, of 6] by simp
  moreover have "snd (Get example_codec example_store fs_stored example_meta 12) = Some EOF"
    using Get_from_offset [OF a1 a2 a3, of 12] by simp
  ultimately show ?thesis using a1 a2 a3 by simp
qed

text \<open>
  Claim C10. With an offset beyond the object's decompressed length, \<open>Get\<close> returns
  \<open>io.EOF\<close> together with a handle, not without one: the handle is over the opened
  file, reads as an ended stream, and closing it releases both resources.
\<close>

theorem Get_past_end_keeps_handle:
  assumes "fault fs OpOpen (object_path s meta) = None"
    and "lookup fs (object_path s meta) = Some (File m z)"
    and "gzip_decode cd z = Inr \<lparr>zpending = b, zfinal = EOF, zclose = c\<rparr>"
    and "int (length b) < k"
  shows "\<exists>h. Get cd s fs meta k = (Some h, Some EOF) \<and>
           fname (b_f h) = object_path s meta \<and>
           io_ReadAll h = ([], None) \<and>
           snd (Close h []) = [Decompressor, FileHandle]"
  using assms(4)
  by (auto simp: Get_stored [OF assms(1-3)] io_CopyN_Discard_def io_ReadAll_drains
      Close_def gzip_Reader_Close_def os_File_Close_def split: option.splits)

theorem Get_past_end_keeps_handle_witness:
  "fault fs_stored OpOpen (object_path example_store example_meta) = None \<and>
   lookup fs_stored (object_path example_store example_meta) = Some (File 416 ''GZhello world'') \<and>
   gzip_decode example_codec ''GZhello world'' =
     Inr \<lparr>zpending = ''hello world'', zfinal = EOF, zclose = None\<rparr> \<and>
   int (length ''hello world'') < 12 \<and>
   (\<exists>h. Get example_codec example_store fs_stored example_meta 12 = (Some h, Some EOF) \<and>
        fname (b_f h) = object_path example_store example_meta \<and>
        io_ReadAll h = ([], None) \<and>
        snd (Close h []) = [Decompressor, FileHandle])"
proof -
  have p: "object_path example_store example_meta = ''store/68/65/6c6c.gz''"
    by code_simp
  have a1: "fault fs_stored OpOpen (object_path example_store example_meta) = None"
    by (simp add: fs_stored_def no_fault_def)
  have a2: "lookup fs_stored (object_path example_store example_meta) =
      Some (File 416 ''GZhello world'')"
    unfolding p by (simp add: lookup_def implicit_dir_def fs_stored_def Separator_def)
  have a3: "gzip_decode example_codec ''GZhello world'' =
      Inr \<lparr>zpending = ''hello world'', zfinal = EOF, zclose = None\<rparr>"
    by (simp add: example_codec_def)
  have a4: "int (length ''hello world'') < 12" by simp
  show ?thesis
    using Get_past_end_keeps_handle [OF a1 a2 a3 a4] a1 a2 a3 a4 by blast
qed

section \<open>The existence check\<close>

lemma os_Stat_cases:
  "os_Stat fs p =
     (case fault fs OpStat p of
        Some e \<Rightarrow> Some (PathError e)
      | None \<Rightarrow> if lookup fs p = None then Some (PathError ENOENT) else None)"
  by (simp add: os_Stat_def split: option.splits)

text \<open>
  Claim C6, as amended. \<open>Exists\<close> answers false exactly when \<open>os.Stat\<close> on the
  object's path reports not-found. So when the call itself meets no error the answer
  is whether anything is at the path, whatever it holds (nothing is read or verified);
  and any error other than not-found, a permission error for one, is answered with
  true, that is, treated as presence.
\<close>

theorem Exists_unless_not_found:
  "(Exists s fs meta \<longleftrightarrow> os_Stat fs (object_path s meta) \<noteq> Some (PathError ENOENT)) \<and>
   (fault fs OpStat (object_path s meta) = None \<longrightarrow>
      (Exists s fs meta \<longleftrightarrow> lookup fs (object_path s meta) \<noteq> None)) \<and>
   (fault fs OpStat (object_path s meta) = Some e \<and> e \<noteq> ENOENT \<longrightarrow> Exists s fs meta)"
  by (auto simp: Exists_def os_IsNotExist_def os_Stat_cases split: option.splits)

theorem Exists_unless_not_found_witness:
  "fault fs_stored OpStat (object_path example_store example_meta) = None \<and>
   lookup fs_stored (object_path example_store example_meta) \<noteq> None \<and>
   Exists example_store fs_stored example_meta \<and>
   fault fs_stat_denied OpStat (object_path example_store example_meta) = Some EACCES \<and>
   EACCES \<noteq> ENOENT \<and>
   Exists example_store fs_stat_denied example_meta"
proof -
  have p: "object_path example_store example_meta = ''store/68/65/6c6c.gz''"
    by code_simp
  have a1: "fault fs_stored OpStat (object_path example_store example_meta) = None"
    by (simp add: fs_stored_def no_fault_def)
  have a2: "lookup fs_stored (object_path example_store example_meta) \<noteq> None"
    unfolding p by (simp add: lookup_def implicit_dir_def fs_stored_def Separator_def)
  have a3: "fault fs_stat_denied OpStat (object_path example_store example_meta) = Some EACCES \<and>
      EACCES \<noteq> ENOENT"
    by (simp add: fs_stat_denied_def stat_denied_def)
  have "Exists example_store fs_stored example_meta"
    using Exists_unless_not_found [of example_store fs_stored example_meta] a1 a2 by blast
  moreover have "Exists example_store fs_stat_denied example_meta"
    using Exists_unless_not_found [of example_store fs_stat_denied example_meta EACCES] a3
    by blast
  ultimately show ?thesis using a1 a2 a3 by blast
qed

text \<open>
  Nothing is stored and \<open>os.Stat\<close> is refused permission: \<open>Exists\<close> answers true.
\<close>

theorem Exists_permission_error_counterexample:
  "fault fs_stat_denied OpStat (object_path example_store example_meta) = Some EACCES \<and>
   lookup fs_stat_denied (object_path example_store example_meta) = None \<and>
   Exists example_store fs_stat_denied example_meta = True"
proof -
  have p: "object_path example_store example_meta = ''store/68/65/6c6c.gz''"
    by code_simp
  show ?thesis
    unfolding p
    by (simp add: Exists_def os_IsNotExist_def os_Stat_def lookup_def implicit_dir_def
        fs_stat_denied_def stat_denied_def Separator_def)
qed

section \<open>Cleaning never lengthens a path\<close>

text \<open>
  The directories that \<open>MkdirAll\<close> visits for the parent of an object are all shorter
  than the object's own path, so making them cannot touch the object or its
  temporary file.
\<close>

lemma weight_split_sep: "sum_list (map (\<lambda>e. Suc (length e)) (split_sep p)) = Suc (length p)"
  by (induction p) (auto split: list.splits simp: split_sep_nonempty)

lemma weight_butlast:
  "sum_list (map (\<lambda>e. Suc (length e)) (butlast es)) \<le> sum_list (map (\<lambda>e. Suc (length e)) es)"
  by (induction es) auto

lemma weight_take:
  "sum_list (map (\<lambda>e. Suc (length e)) (take n es)) \<le> sum_list (map (\<lambda>e. Suc (length e)) es)"
  by (induction es arbitrary: n) (auto simp: take_Cons' )

lemma weight_clean_step:
  "sum_list (map (\<lambda>e. Suc (length e)) (clean_step r out c))
     \<le> sum_list (map (\<lambda>e. Suc (length e)) out) + Suc (length c)"
  using weight_butlast [of out] by (auto simp: clean_step_def)

lemma weight_foldl_clean_step:
  "sum_list (map (\<lambda>e. Suc (length e)) (foldl (clean_step r) out cs))
     \<le> sum_list (map (\<lambda>e. Suc (length e)) out) + sum_list (map (\<lambda>e. Suc (length e)) cs)"
proof (induction cs arbitrary: out)
  case Nil
  then show ?case by simp
next
  case (Cons c cs)
  have "sum_list (map (\<lambda>e. Suc (length e)) (foldl (clean_step r) (clean_step r out c) cs))
      \<le> sum_list (map (\<lambda>e. Suc (length e)) (clean_step r out c))
        + sum_list (map (\<lambda>e. Suc (length e)) cs)"
    by (rule Cons.IH)
  with weight_clean_step [of r out c] show ?case by simp
qed

lemma weight_clean_elems:
  "sum_list (map (\<lambda>e. Suc (length e)) (clean_elems p))
     \<le> (if is_rooted p then length p else Suc (length p))"
proof (cases "is_rooted p")
  case True
  then obtain p' where p: "p = Separator # p'"
    by (cases p) (auto simp: is_rooted_def)
  have "clean_elems p = foldl (clean_step True) [] (split_sep p')"
    using True by (simp add: clean_elems_def p clean_step_def)
  then have "sum_list (map (\<lambda>e. Suc (length e)) (clean_elems p))
      \<le> sum_list (map (\<lambda>e. Suc (length e)) (split_sep p'))"
    using weight_foldl_clean_step [of True "[]" "split_sep p'"] by simp
  then show ?thesis using True by (simp add: weight_split_sep p)
next
  case False
  have "sum_list (map (\<lambda>e. Suc (length e)) (clean_elems p))
      \<le> sum_list (map (\<lambda>e. Suc (length e)) (split_sep p))"
    using weight_foldl_clean_step [of "is_rooted p" "[]" "split_sep p"]
    by (simp add: clean_elems_def)
  then show ?thesis using False by (simp add: weight_split_sep)
qed

lemma length_strings_Join:
  "es \<noteq> [] \<Longrightarrow> Suc (length (strings_Join es)) = sum_list (map (\<lambda>e. Suc (length e)) es)"
  by (induction es rule: strings_Join.induct) auto

lemma length_render:
  "length (render r es) =
     (if es = [] then 1
      else if r then sum_list (map (\<lambda>e. Suc (length e)) es)
      else sum_list (map (\<lambda>e. Suc (length e)) es) - 1)"
  using length_strings_Join [of es] by (auto simp: render_def)

lemma length_ancestor:
  assumes "q \<in> set (ancestors d)"
  shows "length q \<le> max 1 (length d)"
proof -
  from assms obtain n where n: "1 \<le> n" "n \<le> length (clean_elems d)"
    and q: "q = render (is_rooted d) (take n (clean_elems d))"
    by (auto simp: ancestors_def)
  have ne: "take n (clean_elems d) \<noteq> []" using n by auto
  have "sum_list (map (\<lambda>e. Suc (length e)) (take n (clean_elems d)))
      \<le> (if is_rooted d then length d else Suc (length d))"
    using weight_take [of n "clean_elems d"] weight_clean_elems [of d] by simp
  then show ?thesis
    using ne by (auto simp: q length_render split: if_splits)
qed

lemma length_filepath_Clean: "length (filepath_Clean p) \<le> max 1 (length p)"
  using weight_clean_elems [of p]
  by (auto simp: filepath_Clean_def length_render split: if_splits)

lemma dir_prefix_append:
  "Separator \<notin> set sfx \<Longrightarrow> dir_prefix (x @ sfx) = dir_prefix x"
proof -
  assume "Separator \<notin> set sfx"
  then have "\<And>c. c \<in> set (rev sfx) \<Longrightarrow> c \<noteq> Separator" by auto
  then have "dropWhile (\<lambda>c. c \<noteq> Separator) (rev sfx @ rev x)
      = dropWhile (\<lambda>c. c \<noteq> Separator) (rev x)"
    by (rule dropWhile_append2)
  then show ?thesis by (simp add: dir_prefix_def)
qed

lemma length_dir_prefix: "length (dir_prefix x) \<le> length x"
  using length_dropWhile_le [of "\<lambda>c. c \<noteq> Separator" "rev x"] by (simp add: dir_prefix_def)

lemma length_ancestor_Dir:
  assumes "Separator \<notin> set sfx" and "q \<in> set (ancestors (filepath_Dir (x @ sfx)))"
  shows "length q \<le> max 1 (length x)"
proof -
  have "length (filepath_Dir (x @ sfx)) \<le> max 1 (length x)"
    using length_filepath_Clean [of "dir_prefix x"] length_dir_prefix [of x] assms(1)
    by (simp add: filepath_Dir_def dir_prefix_append)
  with length_ancestor [OF assms(2)] show ?thesis by simp
qed

lemma object_path_not_ancestor:
  "object_path s meta \<notin> set (ancestors (filepath_Dir (object_path s meta)))"
proof
  assume "object_path s meta \<in> set (ancestors (filepath_Dir (object_path s meta)))"
  then have "length (object_path s meta)
      \<le> max 1 (length (filepath_Join [basePath s, transformKey (Oid meta)]))"
    unfolding object_path_def by (intro length_ancestor_Dir) (auto simp: Separator_def)
  then show False by (simp add: object_path_def)
qed

lemma tmp_path_not_ancestor:
  "object_path s meta @ ''.tmp'' \<notin> set (ancestors (filepath_Dir (object_path s meta)))"
proof
  assume "object_path s meta @ ''.tmp'' \<in> set (ancestors (filepath_Dir (object_path s meta)))"
  then have "length (object_path s meta @ ''.tmp'')
      \<le> max 1 (length (filepath_Join [basePath s, transformKey (Oid meta)]))"
    unfolding object_path_def using length_ancestor_Dir [of "''.gz''"] by (fastforce simp: Separator_def)
  then show False by (simp add: object_path_def)
qed

section \<open>Cleaning a cleaned path changes nothing\<close>

text \<open>
  The elements that \<open>Clean\<close> keeps are non-empty, free of separators and never \<open>.\<close>,
  and \<open>..\<close> occurs only at the front of a path that is not rooted. A path built from
  such elements is read back as the same elements, so \<open>Clean\<close> is idempotent and the
  result of \<open>Dir\<close> is a cleaned, non-empty path.
\<close>

lemma split_sep_elems: "c \<in> set (split_sep p) \<Longrightarrow> Separator \<notin> set c"
  by (induction p arbitrary: c) (auto split: if_splits list.splits)

lemma dropWhile_butlast_subset:
  "set (dropWhile P (butlast xs)) \<subseteq> set (dropWhile P xs)"
  by (induction xs) (auto dest: in_set_butlastD)

lemma dropWhile_last:
  "dropWhile P xs \<noteq> [] \<Longrightarrow> last xs \<in> set (dropWhile P xs)"
  by (induction xs) (auto split: if_splits)

lemma clean_step_shape:
  assumes "\<forall>e\<in>set out. e \<noteq> [] \<and> e \<noteq> ''.'' \<and> Separator \<notin> set e"
    and "r \<longrightarrow> ''..'' \<notin> set out"
    and "''..'' \<notin> set (dropWhile (\<lambda>e. e = ''..'') out)"
    and "Separator \<notin> set c"
  shows "(\<forall>e\<in>set (clean_step r out c). e \<noteq> [] \<and> e \<noteq> ''.'' \<and> Separator \<notin> set e) \<and>
         (r \<longrightarrow> ''..'' \<notin> set (clean_step r out c)) \<and>
         ''..'' \<notin> set (dropWhile (\<lambda>e. e = ''..'') (clean_step r out c))"
proof (cases "c = [] \<or> c = ''.''")
  case True
  then show ?thesis using assms by (auto simp: clean_step_def)
next
  case skip: False
  show ?thesis
  proof (cases "c = ''..''")
    case False
    then have "clean_step r out c = out @ [c]"
      using skip by (simp add: clean_step_def)
    then show ?thesis
      using assms skip False by (auto simp: dropWhile_append)
  next
    case True
    show ?thesis
    proof (cases "out \<noteq> [] \<and> last out \<noteq> ''..''")
      case pop: True
      then have "clean_step r out c = butlast out"
        using True by (simp add: clean_step_def)
      then show ?thesis
        using assms dropWhile_butlast_subset [of "\<lambda>e. e = ''..''" out]
        by (auto dest: in_set_butlastD)
    next
      case False
      show ?thesis
      proof (cases r)
        case True
        then have "clean_step r out c = out"
          using \<open>c = ''..''\<close> False by (auto simp: clean_step_def)
        then show ?thesis using assms True by simp
      next
        case nr: False
        have "dropWhile (\<lambda>e. e = ''..'') out = []"
        proof (rule ccontr)
          assume ne: "dropWhile (\<lambda>e. e = ''..'') out \<noteq> []"
          then have "out \<noteq> []" by auto
          then have "last out = ''..''" using False by simp
          with dropWhile_last [OF ne] assms(3) show False by simp
        qed
        then have alld: "\<forall>e\<in>set out. e = ''..''"
          by (simp add: dropWhile_eq_Nil_conv)
        have "clean_step r out c = out @ [''..'']"
          using \<open>c = ''..''\<close> False nr by (auto simp: clean_step_def)
        then show ?thesis
          using assms alld nr by (auto simp: dropWhile_append Separator_def)
      qed
    qed
  qed
qed

lemma foldl_clean_step_shape:
  assumes "\<forall>e\<in>set out. e \<noteq> [] \<and> e \<noteq> ''.'' \<and> Separator \<notin> set e"
    and "r \<longrightarrow> ''..'' \<notin> set out"
    and "''..'' \<notin> set (dropWhile (\<lambda>e. e = ''..'') out)"
    and "\<forall>c\<in>set cs. Separator \<notin> set c"
  shows "(\<forall>e\<in>set (foldl (clean_step r) out cs). e \<noteq> [] \<and> e \<noteq> ''.'' \<and> Separator \<notin> set e) \<and>
         (r \<longrightarrow> ''..'' \<notin> set (foldl (clean_step r) out cs)) \<and>
         ''..'' \<notin> set (dropWhile (\<lambda>e. e = ''..'') (foldl (clean_step r) out cs))"
  using assms
proof (induction cs arbitrary: out)
  case Nil
  then show ?case by simp
next
  case (Cons c cs)
  have c: "Separator \<notin> set c" using Cons.prems(4) by simp
  note st = clean_step_shape [OF Cons.prems(1-3) c]
  show ?case
    using Cons.IH [of "clean_step r out c"] st Cons.prems(4) by simp
qed

lemma clean_elems_shape:
  "(\<forall>e\<in>set (clean_elems p). e \<noteq> [] \<and> e \<noteq> ''.'' \<and> Separator \<notin> set e) \<and>
   (is_rooted p \<longrightarrow> ''..'' \<notin> set (clean_elems p)) \<and>
   ''..'' \<notin> set (dropWhile (\<lambda>e. e = ''..'') (clean_elems p))"
  unfolding clean_elems_def
  by (rule foldl_clean_step_shape) (auto dest: split_sep_elems)

lemma foldl_clean_step_fixed:
  assumes "\<forall>e\<in>set (out @ es). e \<noteq> [] \<and> e \<noteq> ''.'' \<and> Separator \<notin> set e"
    and "r \<longrightarrow> ''..'' \<notin> set (out @ es)"
    and "''..'' \<notin> set (dropWhile (\<lambda>e. e = ''..'') (out @ es))"
  shows "foldl (clean_step r) out es = out @ es"
  using assms
proof (induction es arbitrary: out)
  case Nil
  then show ?case by simp
next
  case (Cons e es)
  have plain: "e \<noteq> []" "e \<noteq> ''.''" using Cons.prems(1) by auto
  have step: "clean_step r out e = out @ [e]"
  proof (cases "e = ''..''")
    case False
    then show ?thesis using plain by (simp add: clean_step_def)
  next
    case True
    have nr: "\<not> r" using Cons.prems(2) True by auto
    have "\<forall>x\<in>set out. x = ''..''"
    proof (rule ccontr)
      assume "\<not> (\<forall>x\<in>set out. x = ''..'')"
      then have "dropWhile (\<lambda>e. e = ''..'') (out @ e # es)
          = dropWhile (\<lambda>e. e = ''..'') out @ e # es"
        by (auto simp: dropWhile_append1)
      with Cons.prems(3) True show False by simp
    qed
    then have "out = [] \<or> last out = ''..''"
      by (cases out rule: rev_cases) auto
    then show ?thesis using True nr by (auto simp: clean_step_def)
  qed
  have "foldl (clean_step r) (out @ [e]) es = (out @ [e]) @ es"
    using Cons.prems by (intro Cons.IH) simp_all
  then show ?case by (simp add: step)
qed

lemma split_sep_strings_Join:
  "es \<noteq> [] \<Longrightarrow> \<forall>e\<in>set es. Separator \<notin> set e \<Longrightarrow> split_sep (strings_Join es) = es"
  by (induction es rule: strings_Join.induct) (auto simp: split_sep_plain split_sep_append)

lemma is_rooted_render:
  assumes "\<forall>e\<in>set es. e \<noteq> [] \<and> Separator \<notin> set e"
  shows "is_rooted (render r es) = r"
proof (cases es)
  case Nil
  then show ?thesis by (simp add: render_def is_rooted_def Separator_def)
next
  case (Cons e es')
  then obtain c cs where e: "e = c # cs" and "c \<noteq> Separator"
    using assms by (cases e) auto
  then have "\<exists>rest. strings_Join es = c # rest"
    using Cons by (cases es') auto
  then show ?thesis
    using Cons \<open>c \<noteq> Separator\<close> by (auto simp: render_def is_rooted_def)
qed

lemma clean_elems_render:
  assumes "\<forall>e\<in>set es. e \<noteq> [] \<and> e \<noteq> ''.'' \<and> Separator \<notin> set e"
    and "r \<longrightarrow> ''..'' \<notin> set es"
    and "''..'' \<notin> set (dropWhile (\<lambda>e. e = ''..'') es)"
  shows "clean_elems (render r es) = es"
proof -
  have rt: "is_rooted (render r es) = r"
    using assms(1) by (intro is_rooted_render) auto
  have fx: "foldl (clean_step r) [] es = es"
    using foldl_clean_step_fixed [of "[]" es r] assms by simp
  show ?thesis
  proof (cases "es = []")
    case True
    then show ?thesis
      unfolding clean_elems_def rt
      by (cases r) (simp_all add: render_def clean_step_def Separator_def)
  next
    case False
    then have sp: "split_sep (strings_Join es) = es"
      using assms(1) by (intro split_sep_strings_Join) auto
    show ?thesis
      unfolding clean_elems_def rt
      using False sp fx by (cases r) (simp_all add: render_def clean_step_def)
  qed
qed

lemma clean_elems_Clean: "clean_elems (filepath_Clean p) = clean_elems p"
  unfolding filepath_Clean_def using clean_elems_shape [of p]
  by (intro clean_elems_render) auto

lemma is_rooted_Clean: "is_rooted (filepath_Clean p) = is_rooted p"
  unfolding filepath_Clean_def using clean_elems_shape [of p]
  by (intro is_rooted_render) auto

lemma filepath_Clean_idem: "filepath_Clean (filepath_Clean p) = filepath_Clean p"
  by (simp add: filepath_Clean_def [of "filepath_Clean p"] clean_elems_Clean is_rooted_Clean)
    (simp add: filepath_Clean_def)

lemma filepath_Clean_nonempty: "filepath_Clean p \<noteq> []"
proof -
  have "strings_Join (clean_elems p) \<noteq> []" if "clean_elems p \<noteq> []"
  proof -
    from that obtain e es where es: "clean_elems p = e # es" by (cases "clean_elems p") auto
    then have "e \<noteq> []" using clean_elems_shape [of p] by auto
    then show ?thesis using es by (cases es) auto
  qed
  then show ?thesis by (auto simp: filepath_Clean_def render_def)
qed

lemma filepath_Dir_clean: "filepath_Clean (filepath_Dir p) = filepath_Dir p"
  by (simp add: filepath_Dir_def filepath_Clean_idem)

lemma filepath_Dir_nonempty: "filepath_Dir p \<noteq> []"
  by (simp add: filepath_Dir_def filepath_Clean_nonempty)

lemma filepath_Dir_tmp: "filepath_Dir (p @ ''.tmp'') = filepath_Dir p"
  by (simp add: filepath_Dir_def dir_prefix_append Separator_def)

section \<open>Making directories\<close>

lemma lookup_None: "lookup fs p = None \<longleftrightarrow> \<not> implicit_dir p \<and> nodes fs p = None"
  by (simp add: lookup_def)

lemma mkdir_chain_env:
  "fault (snd (mkdir_chain fs perm ds)) = fault fs \<and> umask (snd (mkdir_chain fs perm ds)) = umask fs"
  by (induction fs perm ds rule: mkdir_chain.induct) (auto split: option.splits node.splits)

lemma mkdir_chain_other:
  "p \<notin> set ds \<Longrightarrow> nodes (snd (mkdir_chain fs perm ds)) p = nodes fs p"
  by (induction fs perm ds rule: mkdir_chain.induct) (auto split: option.splits node.splits)

lemma mkdir_chain_kept:
  "nodes fs p = Some n \<Longrightarrow> nodes (snd (mkdir_chain fs perm ds)) p = Some n"
proof (induction ds arbitrary: fs)
  case Nil
  then show ?case by simp
next
  case (Cons d ds)
  have step: "nodes (snd (mkdir_chain fs perm ds)) p = Some n"
    using Cons.prems by (rule Cons.IH)
  show ?case
  proof (cases "lookup fs d = None \<and> fault fs OpMkdir d = None")
    case True
    then have "p \<noteq> d" using Cons.prems by (auto simp: lookup_None)
    then have "nodes (fs\<lparr>nodes := (nodes fs)(d \<mapsto> Dir (perm AND NOT (umask fs)))\<rparr>) p = Some n"
      using Cons.prems by simp
    then have "nodes (snd (mkdir_chain
        (fs\<lparr>nodes := (nodes fs)(d \<mapsto> Dir (perm AND NOT (umask fs)))\<rparr>) perm ds)) p = Some n"
      by (rule Cons.IH)
    then show ?thesis using True by simp
  next
    case False
    then show ?thesis
      using step Cons.prems by (auto split: option.splits node.splits)
  qed
qed

lemma lookup_mkdir_chain_kept:
  "lookup fs p = Some n \<Longrightarrow> lookup (snd (mkdir_chain fs perm ds)) p = Some n"
  using mkdir_chain_kept [of fs p n perm ds] by (auto simp: lookup_def split: if_splits)

lemma mkdir_chain_all_dirs:
  "fst (mkdir_chain fs perm ds) = None \<Longrightarrow> d \<in> set ds
     \<Longrightarrow> \<exists>m. lookup (snd (mkdir_chain fs perm ds)) d = Some (Dir m)"
proof (induction fs perm ds rule: mkdir_chain.induct)
  case (1 fs perm)
  then show ?case by simp
next
  case (2 fs perm x xs)
  show ?case
  proof (cases "lookup fs x")
    case None
    show ?thesis
    proof (cases "fault fs OpMkdir x")
      case fNone: None
      let ?fs1 = "fs\<lparr>nodes := (nodes fs)(x \<mapsto> Dir (perm AND NOT (umask fs)))\<rparr>"
      have eq: "mkdir_chain fs perm (x # xs) = mkdir_chain ?fs1 perm xs"
        using None fNone by simp
      show ?thesis
      proof (cases "d \<in> set xs")
        case True
        then show ?thesis
          using "2.IH"(1) [OF None fNone] "2.prems"(1) unfolding eq by simp
      next
        case False
        then have dx: "d = x" using "2.prems"(2) by simp
        have "lookup ?fs1 x = Some (Dir (perm AND NOT (umask fs)))"
          using None by (simp add: lookup_def split: if_splits)
        then show ?thesis
          unfolding eq dx by (auto dest: lookup_mkdir_chain_kept)
      qed
    next
      case (Some e)
      then show ?thesis using None "2.prems" by simp
    qed
  next
    case (Some n)
    show ?thesis
    proof (cases n)
      case (File m c)
      then show ?thesis using Some "2.prems" by simp
    next
      case (Dir m)
      have eq: "mkdir_chain fs perm (x # xs) = mkdir_chain fs perm xs"
        using Some Dir by simp
      show ?thesis
      proof (cases "d \<in> set xs")
        case True
        then show ?thesis
          using "2.IH"(2) [OF Some Dir] "2.prems"(1) unfolding eq by simp
      next
        case False
        then have dx: "d = x" using "2.prems"(2) by simp
        show ?thesis
          unfolding eq dx using Some Dir by (auto dest: lookup_mkdir_chain_kept)
      qed
    qed
  qed
qed

lemma mkdir_chain_new_mode:
  "fst (mkdir_chain fs perm ds) = None \<Longrightarrow> d \<in> set ds \<Longrightarrow> lookup fs d = None
     \<Longrightarrow> nodes (snd (mkdir_chain fs perm ds)) d = Some (Dir (perm AND NOT (umask fs)))"
proof (induction fs perm ds rule: mkdir_chain.induct)
  case (1 fs perm)
  then show ?case by simp
next
  case (2 fs perm x xs)
  show ?case
  proof (cases "lookup fs x")
    case None
    show ?thesis
    proof (cases "fault fs OpMkdir x")
      case fNone: None
      let ?fs1 = "fs\<lparr>nodes := (nodes fs)(x \<mapsto> Dir (perm AND NOT (umask fs)))\<rparr>"
      have eq: "mkdir_chain fs perm (x # xs) = mkdir_chain ?fs1 perm xs"
        using None fNone by simp
      show ?thesis
      proof (cases "d = x")
        case True
        have "nodes ?fs1 x = Some (Dir (perm AND NOT (umask fs)))" by simp
        then show ?thesis
          unfolding eq True by (rule mkdir_chain_kept)
      next
        case False
        then have "d \<in> set xs" using "2.prems"(2) by simp
        moreover have "lookup ?fs1 d = None"
          using False "2.prems"(3) by (simp add: lookup_def split: if_splits)
        ultimately show ?thesis
          using "2.IH"(1) [OF None fNone] "2.prems"(1) unfolding eq by simp
      qed
    next
      case (Some e)
      then show ?thesis using None "2.prems" by simp
    qed
  next
    case (Some n)
    show ?thesis
    proof (cases n)
      case (File m c)
      then show ?thesis using Some "2.prems" by simp
    next
      case (Dir m)
      have eq: "mkdir_chain fs perm (x # xs) = mkdir_chain fs perm xs"
        using Some Dir by simp
      have "d \<noteq> x" using Some "2.prems"(3) by auto
      then have "d \<in> set xs" using "2.prems"(2) by simp
      then show ?thesis
        using "2.IH"(2) [OF Some Dir] "2.prems"(1,3) unfolding eq by simp
    qed
  qed
qed

lemma os_MkdirAll_env:
  "fault (snd (os_MkdirAll fs p perm)) = fault fs \<and> umask (snd (os_MkdirAll fs p perm)) = umask fs"
  by (auto simp: os_MkdirAll_def mkdir_chain_env split: option.splits node.splits)

lemma os_MkdirAll_other:
  "q \<notin> set (ancestors p) \<Longrightarrow> nodes (snd (os_MkdirAll fs p perm)) q = nodes fs q"
  by (auto simp: os_MkdirAll_def mkdir_chain_other split: option.splits node.splits)

lemma os_MkdirAll_kept:
  "nodes fs q = Some n \<Longrightarrow> nodes (snd (os_MkdirAll fs p perm)) q = Some n"
  by (auto simp: os_MkdirAll_def mkdir_chain_kept split: option.splits node.splits)

lemma filepath_Clean_in_ancestors:
  assumes "clean_elems p \<noteq> []"
  shows "filepath_Clean p \<in> set (ancestors p)"
  unfolding ancestors_def set_map
  by (rule image_eqI [where x = "length (clean_elems p)"])
    (use assms in \<open>auto simp: filepath_Clean_def Suc_le_eq\<close>)

lemma implicit_dir_render_Nil: "implicit_dir (render r [])"
  by (simp add: render_def implicit_dir_def Separator_def)

lemma os_MkdirAll_target:
  assumes "os_MkdirAll fs p perm = (None, fs')"
  shows "\<exists>m. lookup fs' (filepath_Clean p) = Some (Dir m)"
proof (cases "lookup fs (filepath_Clean p)")
  case None
  have ne: "clean_elems p \<noteq> []"
  proof
    assume "clean_elems p = []"
    then have "implicit_dir (filepath_Clean p)"
      by (simp add: filepath_Clean_def implicit_dir_render_Nil)
    with None show False by (simp add: lookup_def)
  qed
  have eq: "mkdir_chain fs perm (ancestors p) = (None, fs')"
    using assms None by (simp add: os_MkdirAll_def split: if_splits)
  show ?thesis
    using mkdir_chain_all_dirs [of fs perm "ancestors p" "filepath_Clean p"]
      filepath_Clean_in_ancestors [OF ne] eq by simp
next
  case (Some n)
  then show ?thesis
    using assms by (cases n) (auto simp: os_MkdirAll_def split: if_splits)
qed

lemma os_MkdirAll_again:
  assumes "os_MkdirAll fs p perm = (None, fs')"
  shows "os_MkdirAll fs' p perm' = (None, fs')"
proof -
  have "p \<noteq> []" using assms by (auto simp: os_MkdirAll_def)
  moreover obtain m where "lookup fs' (filepath_Clean p) = Some (Dir m)"
    using os_MkdirAll_target [OF assms] by blast
  ultimately show ?thesis by (simp add: os_MkdirAll_def)
qed

text \<open>
  What suffices for \<open>MkdirAll\<close> to succeed: no file stands where a directory is
  needed and no \<open>mkdir\<close> is refused.
\<close>

lemma mkdir_chain_succeeds:
  assumes "\<forall>d\<in>set ds. (\<forall>m c. lookup fs d \<noteq> Some (File m c)) \<and> fault fs OpMkdir d = None"
  shows "fst (mkdir_chain fs perm ds) = None"
  using assms
proof (induction ds arbitrary: fs)
  case Nil
  then show ?case by simp
next
  case (Cons d ds)
  show ?case
  proof (cases "lookup fs d")
    case None
    let ?fs1 = "fs\<lparr>nodes := (nodes fs)(d \<mapsto> Dir (perm AND NOT (umask fs)))\<rparr>"
    have "\<forall>x\<in>set ds. (\<forall>m c. lookup ?fs1 x \<noteq> Some (File m c)) \<and> fault ?fs1 OpMkdir x = None"
      using Cons.prems by (auto simp: lookup_def)
    then have "fst (mkdir_chain ?fs1 perm ds) = None" by (rule Cons.IH)
    then show ?thesis using None Cons.prems by simp
  next
    case (Some n)
    have "fst (mkdir_chain fs perm ds) = None"
      using Cons.prems by (intro Cons.IH) simp
    then show ?thesis using Some Cons.prems by (cases n) auto
  qed
qed

lemma os_MkdirAll_succeeds:
  assumes "p \<noteq> []"
    and "\<forall>d\<in>set (ancestors p). (\<forall>m c. lookup fs d \<noteq> Some (File m c)) \<and> fault fs OpMkdir d = None"
  shows "fst (os_MkdirAll fs p perm) = None"
proof (cases "lookup fs (filepath_Clean p)")
  case None
  then show ?thesis
    using assms mkdir_chain_succeeds [OF assms(2), of perm] by (simp add: os_MkdirAll_def)
next
  case (Some n)
  show ?thesis
  proof (cases n)
    case (Dir m)
    then show ?thesis using Some assms(1) by (simp add: os_MkdirAll_def)
  next
    case (File m c)
    have "clean_elems p \<noteq> []"
    proof
      assume "clean_elems p = []"
      then have "implicit_dir (filepath_Clean p)"
        by (simp add: filepath_Clean_def implicit_dir_render_Nil)
      then show False using Some File by (simp add: lookup_def)
    qed
    then have "filepath_Clean p \<in> set (ancestors p)" by (rule filepath_Clean_in_ancestors)
    then show ?thesis using assms(2) Some File by auto
  qed
qed

lemma os_MkdirAll_Dir_target:
  assumes "os_MkdirAll fs (filepath_Dir p) perm = (None, fs')"
  shows "\<exists>m. lookup fs' (filepath_Dir p) = Some (Dir m)"
  using os_MkdirAll_target [OF assms] by (simp add: filepath_Dir_clean)

lemma os_MkdirAll_Dir_there:
  assumes "lookup fs (filepath_Dir p) = Some (Dir m)"
  shows "os_MkdirAll fs (filepath_Dir p) perm = (None, fs)"
  using assms by (simp add: os_MkdirAll_def filepath_Dir_clean filepath_Dir_nonempty)

section \<open>Writing\<close>

lemma os_OpenFile_excl_Inr:
  assumes "os_OpenFile_excl fs p perm = Inr fs'"
  shows "fs' = fs\<lparr>nodes := (nodes fs)(p \<mapsto> File (perm AND NOT (umask fs)) [])\<rparr>"
    and "lookup fs p = None" and "fault fs OpCreate p = None"
  using assms
  by (auto simp: os_OpenFile_excl_def split: option.splits node.splits)

lemma io_Copy_Inr:
  "io_Copy fs tmp r = Inr written \<Longrightarrow> written = int (length (rdata r)) \<and> rerr r = EOF"
  by (auto simp: io_Copy_def split: option.splits if_splits)

lemma write_file_env: "fault (write_file fs p c) = fault fs \<and> umask (write_file fs p c) = umask fs"
  by (simp add: write_file_def split: option.splits node.splits)

lemma write_file_other: "q \<noteq> p \<Longrightarrow> nodes (write_file fs p c) q = nodes fs q"
  by (simp add: write_file_def split: option.splits node.splits)

lemma Put_stream_env:
  "fault (snd (Put_stream cd fs meta r path tmp)) = fault fs"
  by (auto simp: Put_stream_def gzip_Writer_Close_def os_Rename_def write_file_env
      split: sum.splits option.splits node.splits)

lemma Put_stream_failed:
  "fst (Put_stream cd fs meta r path tmp) \<noteq> None \<Longrightarrow> q \<noteq> tmp
     \<Longrightarrow> nodes (snd (Put_stream cd fs meta r path tmp)) q = nodes fs q"
  by (auto simp: Put_stream_def gzip_Writer_Close_def os_Rename_def write_file_other
      split: sum.splits option.splits node.splits if_splits)

lemma Put_stream_size:
  "Size meta \<noteq> int (length (rdata r)) \<Longrightarrow> fst (Put_stream cd fs meta r path tmp) \<noteq> None"
  by (auto simp: Put_stream_def split: sum.splits dest: io_Copy_Inr)

lemma Put_stream_hash:
  "Oid meta \<noteq> hex_EncodeToString (sha256_Sum cd (rdata r))
     \<Longrightarrow> fst (Put_stream cd fs meta r path tmp) \<noteq> None"
  by (auto simp: Put_stream_def split: sum.splits)

lemma Put_stream_checks:
  assumes "rerr r = EOF" and "fault fs OpWrite tmp = None" and "fault fs OpFlush tmp = None"
  shows "fst (Put_stream cd fs meta r path tmp) =
     (if Size meta \<noteq> int (length (rdata r)) then Some errSizeMismatch
      else if hex_EncodeToString (sha256_Sum cd (rdata r)) \<noteq> Oid meta then Some errHashMismatch
      else (case os_Rename (write_file fs tmp (gzip_compress cd (rdata r))) tmp path of
              Inl e \<Rightarrow> Some e | Inr fs' \<Rightarrow> None))"
  using assms
  by (auto simp: Put_stream_def io_Copy_def gzip_Writer_Close_def split: sum.splits)

lemma Put_stream_done:
  assumes "Put_stream cd fs meta r path tmp = (None, fs')"
    and "nodes fs tmp = Some (File m c)" and "tmp \<noteq> path"
  shows "lookup fs' path = Some (File m (gzip_compress cd (rdata r)))"
    and "nodes fs' tmp = None"
    and "rerr r = EOF" and "Size meta = int (length (rdata r))"
    and "Oid meta = hex_EncodeToString (sha256_Sum cd (rdata r))"
  using assms
  by (auto simp: Put_stream_def gzip_Writer_Close_def os_Rename_def write_file_def lookup_def
      split: sum.splits option.splits node.splits if_splits dest: io_Copy_Inr)

lemma os_Remove_env: "fault (snd (os_Remove fs p)) = fault fs"
  by (simp add: os_Remove_def split: option.splits node.splits)

lemma os_Remove_other: "q \<noteq> p \<Longrightarrow> nodes (snd (os_Remove fs p)) q = nodes fs q"
  by (simp add: os_Remove_def split: option.splits node.splits)

lemma os_Remove_absent: "nodes fs p = None \<Longrightarrow> snd (os_Remove fs p) = fs"
  by (simp add: os_Remove_def split: option.splits)

lemma tmp_neq_path: "p @ ''.tmp'' \<noteq> p"
  by simp

text \<open>\<open>Put\<close> with its three stages laid open.\<close>

lemma Put_cases:
  "Put cd s fs meta r =
     (case os_MkdirAll fs (filepath_Dir (object_path s meta)) mode_0750 of
        (Some e, fs1) \<Rightarrow> (Some e, fs1)
      | (None, fs1) \<Rightarrow>
          (case os_OpenFile_excl fs1 (object_path s meta @ ''.tmp'') mode_0640 of
             Inl e \<Rightarrow> (Some e, fs1)
           | Inr fs2 \<Rightarrow>
               (fst (Put_stream cd fs2 meta r (object_path s meta) (object_path s meta @ ''.tmp'')),
                snd (os_Remove
                  (snd (Put_stream cd fs2 meta r (object_path s meta) (object_path s meta @ ''.tmp'')))
                  (object_path s meta @ ''.tmp'')))))"
  by (simp add: Put_def Let_def case_prod_beta split: prod.splits option.splits sum.splits)

lemma Put_env: "fault (snd (Put cd s fs meta r)) = fault fs"
proof -
  have m: "\<And>e fs1. os_MkdirAll fs (filepath_Dir (object_path s meta)) mode_0750 = (e, fs1)
      \<Longrightarrow> fault fs1 = fault fs"
    using os_MkdirAll_env [of fs "filepath_Dir (object_path s meta)" mode_0750] by simp
  show ?thesis
    by (auto simp: Put_cases os_Remove_env Put_stream_env split: prod.splits option.splits sum.splits
        dest!: m dest: os_OpenFile_excl_Inr(1))
qed

lemma Put_failed_keeps_object:
  assumes "fst (Put cd s fs meta r) \<noteq> None"
  shows "nodes (snd (Put cd s fs meta r)) (object_path s meta) = nodes fs (object_path s meta)"
proof -
  let ?path = "object_path s meta"
  let ?tmp = "?path @ ''.tmp''"
  obtain e fs1 where mk: "os_MkdirAll fs (filepath_Dir ?path) mode_0750 = (e, fs1)"
    by (cases "os_MkdirAll fs (filepath_Dir ?path) mode_0750")
  have n1: "nodes fs1 ?path = nodes fs ?path"
    using os_MkdirAll_other [OF object_path_not_ancestor [of s meta], of fs mode_0750] mk by simp
  show ?thesis
  proof (cases e)
    case (Some err)
    then show ?thesis using mk n1 by (simp add: Put_cases)
  next
    case None
    show ?thesis
    proof (cases "os_OpenFile_excl fs1 ?tmp mode_0640")
      case (Inl err)
      then show ?thesis using mk None n1 by (simp add: Put_cases)
    next
      case (Inr fs2)
      have n2: "nodes fs2 ?path = nodes fs1 ?path"
        using os_OpenFile_excl_Inr(1) [OF Inr] by simp
      have res: "Put cd s fs meta r =
          (fst (Put_stream cd fs2 meta r ?path ?tmp),
           snd (os_Remove (snd (Put_stream cd fs2 meta r ?path ?tmp)) ?tmp))"
        using mk None Inr by (simp add: Put_cases)
      then have "fst (Put_stream cd fs2 meta r ?path ?tmp) \<noteq> None"
        using assms by simp
      then have "nodes (snd (Put_stream cd fs2 meta r ?path ?tmp)) ?path = nodes fs2 ?path"
        by (rule Put_stream_failed) simp
      then show ?thesis
        using n1 n2 by (simp add: res os_Remove_other)
    qed
  qed
qed

lemma Put_failed_keeps_Exists:
  assumes "fst (Put cd s fs meta r) \<noteq> None"
  shows "Exists s (snd (Put cd s fs meta r)) meta = Exists s fs meta"
proof -
  have "lookup (snd (Put cd s fs meta r)) (object_path s meta) = lookup fs (object_path s meta)"
    using Put_failed_keeps_object [OF assms] by (simp add: lookup_def)
  then have "os_Stat (snd (Put cd s fs meta r)) (object_path s meta) = os_Stat fs (object_path s meta)"
    using Put_env [of cd s fs meta r] by (simp add: os_Stat_def split: option.splits)
  then show ?thesis
    by (simp add: Exists_def)
qed

lemma Put_fails_on_size:
  assumes "Size meta \<noteq> int (length (rdata r))"
  shows "fst (Put cd s fs meta r) \<noteq> None"
  using Put_stream_size [OF assms]
  by (auto simp: Put_cases split: prod.splits option.splits sum.splits)

lemma Put_fails_on_hash:
  assumes "Oid meta \<noteq> hex_EncodeToString (sha256_Sum cd (rdata r))"
  shows "fst (Put cd s fs meta r) \<noteq> None"
  using Put_stream_hash [OF assms]
  by (auto simp: Put_cases split: prod.splits option.splits sum.splits)

lemma Put_at_checks:
  assumes "os_MkdirAll fs (filepath_Dir (object_path s meta)) mode_0750 = (None, fs1)"
    and "os_OpenFile_excl fs1 (object_path s meta @ ''.tmp'') mode_0640 = Inr fs2"
    and "rerr r = EOF"
    and "fault fs OpWrite (object_path s meta @ ''.tmp'') = None"
    and "fault fs OpFlush (object_path s meta @ ''.tmp'') = None"
  shows "fst (Put cd s fs meta r) =
     (if Size meta \<noteq> int (length (rdata r)) then Some errSizeMismatch
      else if hex_EncodeToString (sha256_Sum cd (rdata r)) \<noteq> Oid meta then Some errHashMismatch
      else (case os_Rename (write_file fs2 (object_path s meta @ ''.tmp'')
                (gzip_compress cd (rdata r))) (object_path s meta @ ''.tmp'') (object_path s meta) of
              Inl e \<Rightarrow> Some e | Inr fs' \<Rightarrow> None))"
proof -
  have f1: "fault fs1 = fault fs"
    using os_MkdirAll_env [of fs "filepath_Dir (object_path s meta)" mode_0750] assms(1) by simp
  have f2: "fault fs2 = fault fs"
    using os_OpenFile_excl_Inr(1) [OF assms(2)] f1 by simp
  show ?thesis
    using assms(1,2) Put_stream_checks [of r fs2 "object_path s meta @ ''.tmp''" cd meta "object_path s meta"]
      assms(3-5) f2
    by (simp add: Put_cases)
qed

lemma Put_done:
  assumes "Put cd s fs meta r = (None, fs')"
  shows "\<exists>m. lookup fs' (object_path s meta) = Some (File m (gzip_compress cd (rdata r)))"
    and "rerr r = EOF" and "Size meta = int (length (rdata r))"
    and "Oid meta = hex_EncodeToString (sha256_Sum cd (rdata r))"
proof -
  let ?path = "object_path s meta"
  let ?tmp = "?path @ ''.tmp''"
  obtain fs1 where mk: "os_MkdirAll fs (filepath_Dir ?path) mode_0750 = (None, fs1)"
    using assms by (auto simp: Put_cases split: prod.splits option.splits)
  obtain fs2 where op: "os_OpenFile_excl fs1 ?tmp mode_0640 = Inr fs2"
    using assms mk by (auto simp: Put_cases split: sum.splits)
  obtain fs3 where st: "Put_stream cd fs2 meta r ?path ?tmp = (None, fs3)"
    and rm: "fs' = snd (os_Remove fs3 ?tmp)"
    using assms mk op by (cases "Put_stream cd fs2 meta r ?path ?tmp") (auto simp: Put_cases)
  have tmp: "nodes fs2 ?tmp = Some (File (mode_0640 AND NOT (umask fs1)) [])"
    using os_OpenFile_excl_Inr(1) [OF op] by simp
  note d = Put_stream_done [OF st tmp tmp_neq_path]
  have "fs' = fs3" using rm d(2) by (simp add: os_Remove_absent)
  with d(1) show "\<exists>m. lookup fs' ?path = Some (File m (gzip_compress cd (rdata r)))" by blast
  show "rerr r = EOF" "Size meta = int (length (rdata r))"
    "Oid meta = hex_EncodeToString (sha256_Sum cd (rdata r))"
    using d(3-5) by simp_all
qed

lemma Put_creates_tmp:
  assumes "os_MkdirAll fs (filepath_Dir (object_path s meta)) mode_0750 = (None, fs1)"
    and "lookup fs (object_path s meta @ ''.tmp'') = None"
    and "fault fs OpCreate (object_path s meta @ ''.tmp'') = None"
  shows "os_OpenFile_excl fs1 (object_path s meta @ ''.tmp'') mode_0640
     = Inr (fs1\<lparr>nodes := (nodes fs1)(object_path s meta @ ''.tmp''
              \<mapsto> File (mode_0640 AND NOT (umask fs1)) [])\<rparr>)"
proof -
  have fs1: "fs1 = snd (os_MkdirAll fs (filepath_Dir (object_path s meta)) mode_0750)"
    by (simp add: assms(1))
  have "nodes fs1 (object_path s meta @ ''.tmp'') = nodes fs (object_path s meta @ ''.tmp'')"
    unfolding fs1 using tmp_path_not_ancestor by (rule os_MkdirAll_other)
  then have absent: "lookup fs1 (object_path s meta @ ''.tmp'') = None"
    using assms(2) by (simp add: lookup_def split: if_splits)
  have flt: "fault fs1 = fault fs"
    unfolding fs1 by (simp add: os_MkdirAll_env)
  obtain m where "lookup fs1 (filepath_Dir (object_path s meta @ ''.tmp'')) = Some (Dir m)"
    using os_MkdirAll_Dir_target [OF assms(1)] by (auto simp: filepath_Dir_tmp)
  then show ?thesis
    using absent flt assms(3) by (simp add: os_OpenFile_excl_def)
qed

lemma Put_reaches_checks:
  assumes "fst (os_MkdirAll fs (filepath_Dir (object_path s meta)) mode_0750) = None"
    and "lookup fs (object_path s meta @ ''.tmp'') = None"
    and "fault fs OpCreate (object_path s meta @ ''.tmp'') = None"
    and "fault fs OpWrite (object_path s meta @ ''.tmp'') = None"
    and "fault fs OpFlush (object_path s meta @ ''.tmp'') = None"
  shows "fst (Put cd s fs meta \<lparr>rdata = b, rerr = EOF\<rparr>) =
     (if Size meta \<noteq> int (length b) then Some errSizeMismatch
      else if hex_EncodeToString (sha256_Sum cd b) \<noteq> Oid meta then Some errHashMismatch
      else (case os_Rename
                  (write_file
                     (projr (os_OpenFile_excl
                        (snd (os_MkdirAll fs (filepath_Dir (object_path s meta)) mode_0750))
                        (object_path s meta @ ''.tmp'') mode_0640))
                     (object_path s meta @ ''.tmp'') (gzip_compress cd b))
                  (object_path s meta @ ''.tmp'') (object_path s meta) of
              Inl e \<Rightarrow> Some e | Inr fs' \<Rightarrow> None))"
proof -
  have mk: "os_MkdirAll fs (filepath_Dir (object_path s meta)) mode_0750
      = (None, snd (os_MkdirAll fs (filepath_Dir (object_path s meta)) mode_0750))"
    using assms(1) by (simp add: prod_eq_iff)
  note op = Put_creates_tmp [OF mk assms(2,3)]
  show ?thesis
    using Put_at_checks [OF mk op _ assms(4,5), of "\<lparr>rdata = b, rerr = EOF\<rparr>" cd]
    by (simp add: op)
qed

text \<open>
  Claim C1. For every byte sequence \<open>b\<close>: when \<open>Put\<close> with the descriptor made of the
  hex digest of \<open>b\<close> and the length of \<open>b\<close>, reading \<open>b\<close>, has succeeded, \<open>Get\<close> with the
  same descriptor and offset \<open>0\<close> returns without error a handle whose bytes are exactly
  \<open>b\<close>, given that decompressing what the compressor wrote gives \<open>b\<close> back and that the
  file can be opened.
\<close>

theorem Put_then_Get_roundtrip:
  assumes "Put cd s fs \<lparr>Oid = hex_EncodeToString (sha256_Sum cd b), Size = int (length b)\<rparr>
             \<lparr>rdata = b, rerr = EOF\<rparr> = (None, fs')"
    and "gzip_decode cd (gzip_compress cd b) = Inr \<lparr>zpending = b, zfinal = EOF, zclose = c\<rparr>"
    and "fault fs' OpOpen
           (object_path s \<lparr>Oid = hex_EncodeToString (sha256_Sum cd b), Size = int (length b)\<rparr>) = None"
  shows "\<exists>h. Get cd s fs' \<lparr>Oid = hex_EncodeToString (sha256_Sum cd b), Size = int (length b)\<rparr> 0
             = (Some h, None) \<and>
           io_ReadAll h = (b, None)"
proof -
  obtain m where
    "lookup fs' (object_path s \<lparr>Oid = hex_EncodeToString (sha256_Sum cd b), Size = int (length b)\<rparr>)
       = Some (File m (gzip_compress cd b))"
    using Put_done(1) [OF assms(1)] by auto
  from Get_stored [OF assms(3) this assms(2)] show ?thesis
    by (simp add: io_ReadAll_drains)
qed

theorem Put_then_Get_roundtrip_witness:
  "Put example_codec example_store fs_empty
     \<lparr>Oid = hex_EncodeToString (sha256_Sum example_codec ''hello world''),
      Size = int (length ''hello world'')\<rparr>
     \<lparr>rdata = ''hello world'', rerr = EOF\<rparr>
   = (None, snd (Put example_codec example_store fs_empty
       \<lparr>Oid = hex_EncodeToString (sha256_Sum example_codec ''hello world''),
        Size = int (length ''hello world'')\<rparr>
       \<lparr>rdata = ''hello world'', rerr = EOF\<rparr>)) \<and>
   gzip_decode example_codec (gzip_compress example_codec ''hello world'')
     = Inr \<lparr>zpending = ''hello world'', zfinal = EOF, zclose = None\<rparr> \<and>
   (\<exists>h. Get example_codec example_store
          (snd (Put example_codec example_store fs_empty
             \<lparr>Oid = hex_EncodeToString (sha256_Sum example_codec ''hello world''),
              Size = int (length ''hello world'')\<rparr>
             \<lparr>rdata = ''hello world'', rerr = EOF\<rparr>))
          \<lparr>Oid = hex_EncodeToString (sha256_Sum example_codec ''hello world''),
           Size = int (length ''hello world'')\<rparr> 0
        = (Some h, None) \<and>
        io_ReadAll h = (''hello world'', None))"
proof -
  let ?meta = "\<lparr>Oid = hex_EncodeToString (sha256_Sum example_codec ''hello world''),
      Size = int (length ''hello world'')\<rparr>"
  let ?put = "Put example_codec example_store fs_empty ?meta \<lparr>rdata = ''hello world'', rerr = EOF\<rparr>"
  have "fst ?put = None" by code_simp
  then have a1: "?put = (None, snd ?put)" by (simp add: prod_eq_iff)
  have a2: "gzip_decode example_codec (gzip_compress example_codec ''hello world'')
      = Inr \<lparr>zpending = ''hello world'', zfinal = EOF, zclose = None\<rparr>"
    by (simp add: example_codec_def)
  have "fault (snd ?put) = fault fs_empty" by (rule Put_env)
  then have a3: "fault (snd ?put) OpOpen (object_path example_store ?meta) = None"
    by (simp add: fs_empty_def no_fault_def)
  show ?thesis
    using Put_then_Get_roundtrip [OF a1 a2 a3] a1 a2 by blast
qed

text \<open>
  Claim C4. When the expected size differs from the number of bytes of the source,
  \<open>Put\<close> fails; nothing is renamed onto the final path, which is left as it was, so
  that \<open>Exists\<close> is false afterwards when it was false before; and the failure is the
  size-mismatch error whenever the write gets as far as the comparison: the directory
  can be made, no temporary file of another write is there, and creating, streaming
  and flushing meet no error.
\<close>

theorem Put_size_mismatch:
  assumes "Size meta \<noteq> int (length b)"
  shows "fst (Put cd s fs meta \<lparr>rdata = b, rerr = EOF\<rparr>) \<noteq> None \<and>
     nodes (snd (Put cd s fs meta \<lparr>rdata = b, rerr = EOF\<rparr>)) (object_path s meta)
       = nodes fs (object_path s meta) \<and>
     (\<not> Exists s fs meta \<longrightarrow> \<not> Exists s (snd (Put cd s fs meta \<lparr>rdata = b, rerr = EOF\<rparr>)) meta) \<and>
     (fst (os_MkdirAll fs (filepath_Dir (object_path s meta)) mode_0750) = None \<and>
      lookup fs (object_path s meta @ ''.tmp'') = None \<and>
      fault fs OpCreate (object_path s meta @ ''.tmp'') = None \<and>
      fault fs OpWrite (object_path s meta @ ''.tmp'') = None \<and>
      fault fs OpFlush (object_path s meta @ ''.tmp'') = None
      \<longrightarrow> fst (Put cd s fs meta \<lparr>rdata = b, rerr = EOF\<rparr>) = Some errSizeMismatch)"
proof -
  let ?r = "\<lparr>rdata = b, rerr = EOF\<rparr>"
  have failed: "fst (Put cd s fs meta ?r) \<noteq> None"
    using assms by (intro Put_fails_on_size) simp
  show ?thesis
    using failed Put_failed_keeps_object [OF failed] Put_failed_keeps_Exists [OF failed]
      Put_reaches_checks [of fs s meta cd b] assms
    by simp
qed

theorem Put_size_mismatch_witness:
  "Size (example_meta\<lparr>Size := 12\<rparr>) \<noteq> int (length ''hello world'') \<and>
   \<not> Exists example_store fs_empty (example_meta\<lparr>Size := 12\<rparr>) \<and>
   fst (os_MkdirAll fs_empty (filepath_Dir (object_path example_store (example_meta\<lparr>Size := 12\<rparr>)))
      mode_0750) = None \<and>
   lookup fs_empty (object_path example_store (example_meta\<lparr>Size := 12\<rparr>) @ ''.tmp'') = None \<and>
   fault fs_empty OpCreate (object_path example_store (example_meta\<lparr>Size := 12\<rparr>) @ ''.tmp'') = None \<and>
   fault fs_empty OpWrite (object_path example_store (example_meta\<lparr>Size := 12\<rparr>) @ ''.tmp'') = None \<and>
   fault fs_empty OpFlush (object_path example_store (example_meta\<lparr>Size := 12\<rparr>) @ ''.tmp'') = None \<and>
   fst (Put example_codec example_store fs_empty (example_meta\<lparr>Size := 12\<rparr>)
      \<lparr>rdata = ''hello world'', rerr = EOF\<rparr>) = Some errSizeMismatch \<and>
   \<not> Exists example_store
      (snd (Put example_codec example_store fs_empty (example_meta\<lparr>Size := 12\<rparr>)
         \<lparr>rdata = ''hello world'', rerr = EOF\<rparr>))
      (example_meta\<lparr>Size := 12\<rparr>)"
proof -
  let ?meta = "example_meta\<lparr>Size := 12\<rparr>"
  have p: "object_path example_store ?meta = ''store/68/65/6c6c.gz''"
    by code_simp
  have a0: "Size ?meta \<noteq> int (length ''hello world'')" by simp
  have a1: "\<not> Exists example_store fs_empty ?meta" by code_simp
  have a2: "fst (os_MkdirAll fs_empty (filepath_Dir (object_path example_store ?meta)) mode_0750) = None"
    by code_simp
  have a3: "lookup fs_empty (object_path example_store ?meta @ ''.tmp'') = None"
    unfolding p by (simp add: lookup_def implicit_dir_def fs_empty_def Separator_def)
  have a4: "fault fs_empty OpCreate (object_path example_store ?meta @ ''.tmp'') = None"
    "fault fs_empty OpWrite (object_path example_store ?meta @ ''.tmp'') = None"
    "fault fs_empty OpFlush (object_path example_store ?meta @ ''.tmp'') = None"
    by (simp_all add: fs_empty_def no_fault_def)
  show ?thesis
    using Put_size_mismatch [OF a0, of example_codec example_store fs_empty] a0 a1 a2 a3 a4
    by blast
qed

text \<open>
  Claim C5. When the identifier differs from the hex digest of the source's bytes,
  \<open>Put\<close> fails and the final path is left as it was. Whenever the write gets as far as
  the comparisons (the directory can be made, no temporary file of another write is
  there, and creating, streaming and flushing meet no error), the failure is the
  hash-mismatch error if the size is right, and the size-mismatch error if it is not:
  the size is compared first.
\<close>

theorem Put_hash_mismatch:
  assumes "Oid meta \<noteq> hex_EncodeToString (sha256_Sum cd b)"
  shows "fst (Put cd s fs meta \<lparr>rdata = b, rerr = EOF\<rparr>) \<noteq> None \<and>
     nodes (snd (Put cd s fs meta \<lparr>rdata = b, rerr = EOF\<rparr>)) (object_path s meta)
       = nodes fs (object_path s meta) \<and>
     (\<not> Exists s fs meta \<longrightarrow> \<not> Exists s (snd (Put cd s fs meta \<lparr>rdata = b, rerr = EOF\<rparr>)) meta) \<and>
     (fst (os_MkdirAll fs (filepath_Dir (object_path s meta)) mode_0750) = None \<and>
      lookup fs (object_path s meta @ ''.tmp'') = None \<and>
      fault fs OpCreate (object_path s meta @ ''.tmp'') = None \<and>
      fault fs OpWrite (object_path s meta @ ''.tmp'') = None \<and>
      fault fs OpFlush (object_path s meta @ ''.tmp'') = None
      \<longrightarrow> fst (Put cd s fs meta \<lparr>rdata = b, rerr = EOF\<rparr>)
            = Some (if Size meta = int (length b) then errHashMismatch else errSizeMismatch))"
proof -
  let ?r = "\<lparr>rdata = b, rerr = EOF\<rparr>"
  have failed: "fst (Put cd s fs meta ?r) \<noteq> None"
    using assms by (intro Put_fails_on_hash) simp
  show ?thesis
    using failed Put_failed_keeps_object [OF failed] Put_failed_keeps_Exists [OF failed]
      Put_reaches_checks [of fs s meta cd b] assms
    by auto
qed

theorem Put_hash_mismatch_witness:
  "Oid (example_meta\<lparr>Oid := ''0000000000''\<rparr>)
     \<noteq> hex_EncodeToString (sha256_Sum example_codec ''hello world'') \<and>
   Size (example_meta\<lparr>Oid := ''0000000000''\<rparr>) = int (length ''hello world'') \<and>
   \<not> Exists example_store fs_empty (example_meta\<lparr>Oid := ''0000000000''\<rparr>) \<and>
   fst (os_MkdirAll fs_empty
      (filepath_Dir (object_path example_store (example_meta\<lparr>Oid := ''0000000000''\<rparr>)))
      mode_0750) = None \<and>
   lookup fs_empty
      (object_path example_store (example_meta\<lparr>Oid := ''0000000000''\<rparr>) @ ''.tmp'') = None \<and>
   fault fs_empty OpCreate
      (object_path example_store (example_meta\<lparr>Oid := ''0000000000''\<rparr>) @ ''.tmp'') = None \<and>
   fault fs_empty OpWrite
      (object_path example_store (example_meta\<lparr>Oid := ''0000000000''\<rparr>) @ ''.tmp'') = None \<and>
   fault fs_empty OpFlush
      (object_path example_store (example_meta\<lparr>Oid := ''0000000000''\<rparr>) @ ''.tmp'') = None \<and>
   fst (Put example_codec example_store fs_empty (example_meta\<lparr>Oid := ''0000000000''\<rparr>)
      \<lparr>rdata = ''hello world'', rerr = EOF\<rparr>) = Some errHashMismatch \<and>
   \<not> Exists example_store
      (snd (Put example_codec example_store fs_empty (example_meta\<lparr>Oid := ''0000000000''\<rparr>)
         \<lparr>rdata = ''hello world'', rerr = EOF\<rparr>))
      (example_meta\<lparr>Oid := ''0000000000''\<rparr>)"
proof -
  let ?meta = "example_meta\<lparr>Oid := ''0000000000''\<rparr>"
  have p: "object_path example_store ?meta = ''store/00/00/000000.gz''"
    by code_simp
  have a0: "Oid ?meta \<noteq> hex_EncodeToString (sha256_Sum example_codec ''hello world'')"
    by code_simp
  have sz: "Size ?meta = int (length ''hello world'')" by (simp add: example_meta_def)
  have a1: "\<not> Exists example_store fs_empty ?meta" by code_simp
  have a2: "fst (os_MkdirAll fs_empty (filepath_Dir (object_path example_store ?meta)) mode_0750) = None"
    by code_simp
  have a3: "lookup fs_empty (object_path example_store ?meta @ ''.tmp'') = None"
    unfolding p by (simp add: lookup_def implicit_dir_def fs_empty_def Separator_def)
  have a4: "fault fs_empty OpCreate (object_path example_store ?meta @ ''.tmp'') = None"
    "fault fs_empty OpWrite (object_path example_store ?meta @ ''.tmp'') = None"
    "fault fs_empty OpFlush (object_path example_store ?meta @ ''.tmp'') = None"
    by (simp_all add: fs_empty_def no_fault_def)
  have "fst (Put example_codec example_store fs_empty ?meta \<lparr>rdata = ''hello world'', rerr = EOF\<rparr>)
      = Some (if Size ?meta = int (length ''hello world'') then errHashMismatch else errSizeMismatch)"
    using Put_hash_mismatch [OF a0, of example_store fs_empty] a2 a3 a4 by blast
  then have "fst (Put example_codec example_store fs_empty ?meta \<lparr>rdata = ''hello world'', rerr = EOF\<rparr>)
      = Some errHashMismatch"
    using sz by simp
  moreover have "\<not> Exists example_store
      (snd (Put example_codec example_store fs_empty ?meta \<lparr>rdata = ''hello world'', rerr = EOF\<rparr>)) ?meta"
    using Put_hash_mismatch [OF a0, of example_store fs_empty] a1 by blast
  ultimately show ?thesis
    using a0 sz a1 a2 a3 a4 by blast
qed

section \<open>A write that finds another under way\<close>

text \<open>
  Claim C8. While a write of an identifier is under way, its temporary file exists in
  the object's directory. A second \<open>Put\<close> for the same identifier then returns the
  already-exists error of the exclusive creation (unless the creation is refused for
  another reason) and leaves the file system exactly as it found it: nothing is
  written, and the temporary file of the first write is not removed.
\<close>

theorem Put_while_in_progress:
  assumes "lookup fs (object_path s meta @ ''.tmp'') = Some n"
    and "lookup fs (filepath_Dir (object_path s meta)) = Some (Dir m)"
    and "fault fs OpCreate (object_path s meta @ ''.tmp'') = None"
  shows "Put cd s fs meta r = (Some (PathError EEXIST), fs)"
proof -
  have mk: "os_MkdirAll fs (filepath_Dir (object_path s meta)) mode_0750 = (None, fs)"
    using assms(2) by (rule os_MkdirAll_Dir_there)
  have "os_OpenFile_excl fs (object_path s meta @ ''.tmp'') mode_0640 = Inl (PathError EEXIST)"
    using assms(1,3) by (simp add: os_OpenFile_excl_def)
  then show ?thesis
    by (simp add: Put_cases mk)
qed

theorem Put_while_in_progress_witness:
  "lookup fs_in_progress (object_path example_store example_meta @ ''.tmp'') = Some (File 416 []) \<and>
   lookup fs_in_progress (filepath_Dir (object_path example_store example_meta)) = Some (Dir 488) \<and>
   fault fs_in_progress OpCreate (object_path example_store example_meta @ ''.tmp'') = None \<and>
   Put example_codec example_store fs_in_progress example_meta example_source
     = (Some (PathError EEXIST), fs_in_progress)"
proof -
  have p: "object_path example_store example_meta = ''store/68/65/6c6c.gz''"
    by code_simp
  have d: "filepath_Dir ''store/68/65/6c6c.gz'' = ''store/68/65''"
    by code_simp
  have a1: "lookup fs_in_progress (object_path example_store example_meta @ ''.tmp'')
      = Some (File 416 [])"
    unfolding p by (simp add: lookup_def implicit_dir_def fs_in_progress_def Separator_def)
  have a2: "lookup fs_in_progress (filepath_Dir (object_path example_store example_meta))
      = Some (Dir 488)"
    unfolding p d by (simp add: lookup_def implicit_dir_def fs_in_progress_def Separator_def)
  have a3: "fault fs_in_progress OpCreate (object_path example_store example_meta @ ''.tmp'') = None"
    by (simp add: fs_in_progress_def no_fault_def)
  show ?thesis
    using Put_while_in_progress [OF a1 a2 a3, of example_codec example_source] a1 a2 a3
    by blast
qed

section \<open>Opening a store\<close>

text \<open>
  Claim C9, as amended. When \<open>NewContentStore\<close> succeeds, the store holds the root
  path as given and the root is a directory. If it was absent before, every directory
  on the way to it is one afterwards, and each that was missing has been made with
  mode \<open>0750\<close> less the umask: read, write and execute for the owner, read and execute
  for the group, nothing for others. A second call on the same path succeeds and
  changes nothing. When \<open>MkdirAll\<close> fails, its error is returned and no store.
\<close>

theorem NewContentStore_makes_directory:
  "(NewContentStore fs base = (Inr s, fs') \<longrightarrow>
      s = \<lparr>basePath = base\<rparr> \<and>
      (\<exists>m. lookup fs' (filepath_Clean base) = Some (Dir m)) \<and>
      NewContentStore fs' base = (Inr s, fs') \<and>
      (lookup fs (filepath_Clean base) = None \<longrightarrow>
         list_all (\<lambda>d. (\<exists>m. lookup fs' d = Some (Dir m)) \<and>
                        (lookup fs d = None \<longrightarrow>
                           nodes fs' d = Some (Dir (mode_0750 AND NOT (umask fs)))))
           (ancestors base))) \<and>
   (os_MkdirAll fs base mode_0750 = (Some e, fs') \<longrightarrow> NewContentStore fs base = (Inl e, fs'))"
proof (intro conjI impI)
  assume ok: "NewContentStore fs base = (Inr s, fs')"
  then have mk: "os_MkdirAll fs base mode_0750 = (None, fs')" and s: "s = \<lparr>basePath = base\<rparr>"
    by (auto simp: NewContentStore_def split: prod.splits option.splits)
  show "s = \<lparr>basePath = base\<rparr>" by (rule s)
  show "\<exists>m. lookup fs' (filepath_Clean base) = Some (Dir m)"
    using mk by (rule os_MkdirAll_target)
  show "NewContentStore fs' base = (Inr s, fs')"
    using os_MkdirAll_again [OF mk, of mode_0750] s by (simp add: NewContentStore_def)
  show "list_all (\<lambda>d. (\<exists>m. lookup fs' d = Some (Dir m)) \<and>
                        (lookup fs d = None \<longrightarrow>
                           nodes fs' d = Some (Dir (mode_0750 AND NOT (umask fs)))))
           (ancestors base)"
    if absent: "lookup fs (filepath_Clean base) = None"
  proof -
    have ch: "mkdir_chain fs mode_0750 (ancestors base) = (None, fs')"
      using mk absent by (simp add: os_MkdirAll_def split: if_splits)
    show ?thesis
      unfolding list_all_iff
    proof (intro ballI conjI impI)
      fix d assume d: "d \<in> set (ancestors base)"
      show "\<exists>m. lookup fs' d = Some (Dir m)"
        using mkdir_chain_all_dirs [of fs mode_0750 "ancestors base" d] ch d by simp
      show "nodes fs' d = Some (Dir (mode_0750 AND NOT (umask fs)))" if "lookup fs d = None"
        using mkdir_chain_new_mode [of fs mode_0750 "ancestors base" d] ch d that by simp
    qed
  qed
next
  assume "os_MkdirAll fs base mode_0750 = (Some e, fs')"
  then show "NewContentStore fs base = (Inl e, fs')"
    by (simp add: NewContentStore_def)
qed

theorem NewContentStore_makes_directory_witness:
  "NewContentStore fs_empty ''data/lfs''
     = (Inr \<lparr>basePath = ''data/lfs''\<rparr>, snd (NewContentStore fs_empty ''data/lfs'')) \<and>
   lookup fs_empty (filepath_Clean ''data/lfs'') = None \<and>
   NewContentStore (snd (NewContentStore fs_empty ''data/lfs'')) ''data/lfs''
     = (Inr \<lparr>basePath = ''data/lfs''\<rparr>, snd (NewContentStore fs_empty ''data/lfs'')) \<and>
   list_all (\<lambda>d. (\<exists>m. lookup (snd (NewContentStore fs_empty ''data/lfs'')) d = Some (Dir m)) \<and>
                  (lookup fs_empty d = None \<longrightarrow>
                     nodes (snd (NewContentStore fs_empty ''data/lfs'')) d
                       = Some (Dir (mode_0750 AND NOT (umask fs_empty)))))
     (ancestors ''data/lfs'') \<and>
   os_MkdirAll fs_stored ''store/68/65/6c6c.gz/sub'' mode_0750
     = (Some (PathError ENOTDIR), snd (os_MkdirAll fs_stored ''store/68/65/6c6c.gz/sub'' mode_0750)) \<and>
   NewContentStore fs_stored ''store/68/65/6c6c.gz/sub''
     = (Inl (PathError ENOTDIR), snd (os_MkdirAll fs_stored ''store/68/65/6c6c.gz/sub'' mode_0750))"
proof -
  have "fst (NewContentStore fs_empty ''data/lfs'') = Inr \<lparr>basePath = ''data/lfs''\<rparr>"
    by code_simp
  then have a1: "NewContentStore fs_empty ''data/lfs''
      = (Inr \<lparr>basePath = ''data/lfs''\<rparr>, snd (NewContentStore fs_empty ''data/lfs''))"
    by (simp add: prod_eq_iff)
  have a2: "lookup fs_empty (filepath_Clean ''data/lfs'') = None"
    by code_simp
  have "fst (os_MkdirAll fs_stored ''store/68/65/6c6c.gz/sub'' mode_0750) = Some (PathError ENOTDIR)"
    by code_simp
  then have a3: "os_MkdirAll fs_stored ''store/68/65/6c6c.gz/sub'' mode_0750
      = (Some (PathError ENOTDIR), snd (os_MkdirAll fs_stored ''store/68/65/6c6c.gz/sub'' mode_0750))"
    by (simp add: prod_eq_iff)
  note t = NewContentStore_makes_directory [of fs_empty "''data/lfs''" "\<lparr>basePath = ''data/lfs''\<rparr>"
      "snd (NewContentStore fs_empty ''data/lfs'')"]
  note u = NewContentStore_makes_directory [of fs_stored "''store/68/65/6c6c.gz/sub''" _
      "snd (os_MkdirAll fs_stored ''store/68/65/6c6c.gz/sub'' mode_0750)" "PathError ENOTDIR"]
  have "NewContentStore (snd (NewContentStore fs_empty ''data/lfs'')) ''data/lfs''
     = (Inr \<lparr>basePath = ''data/lfs''\<rparr>, snd (NewContentStore fs_empty ''data/lfs''))"
    using t a1 by blast
  moreover have "list_all (\<lambda>d. (\<exists>m. lookup (snd (NewContentStore fs_empty ''data/lfs'')) d = Some (Dir m)) \<and>
                  (lookup fs_empty d = None \<longrightarrow>
                     nodes (snd (NewContentStore fs_empty ''data/lfs'')) d
                       = Some (Dir (mode_0750 AND NOT (umask fs_empty)))))
     (ancestors ''data/lfs'')"
    using t a1 a2 by blast
  moreover have "NewContentStore fs_stored ''store/68/65/6c6c.gz/sub''
     = (Inl (PathError ENOTDIR), snd (os_MkdirAll fs_stored ''store/68/65/6c6c.gz/sub'' mode_0750))"
    using u a3 by blast
  ultimately show ?thesis
    using a1 a2 a3 by blast
qed

text \<open>
  Under the usual umask the new root has mode \<open>0750\<close>, which is not restricted to the
  owner: the group may read and search it.
\<close>

theorem NewContentStore_mode_counterexample:
  "fst (NewContentStore fs_empty ''store'') = Inr \<lparr>basePath = ''store''\<rparr> \<and>
   nodes (snd (NewContentStore fs_empty ''store'')) ''store'' = Some (Dir mode_0750) \<and>
   \<not> owner_only mode_0750"
proof -
  have "fst (NewContentStore fs_empty ''store'') = Inr \<lparr>basePath = ''store''\<rparr>"
    by code_simp
  moreover have "nodes (snd (NewContentStore fs_empty ''store'')) ''store'' = Some (Dir mode_0750)"
    by code_simp
  moreover have "\<not> owner_only mode_0750"
    by (simp add: owner_only_def mode_0750_def)
  ultimately show ?thesis by blast
qed

end
